theory Spec2Isabelle
  imports Complex_Main "HOL-Library.Multiset"
begin

section \<open>Numbers\<close>

text \<open>
  A JavaScript \<^verbatim>\<open>number\<close> is modelled, to begin with, without rounding and without
  overflow: a finite number is a real. The rounding of IEEE 754 doubles is added in the
  section on double-precision arithmetic, for the properties that depend on it. Where a division by zero is reachable from finite inputs (the per-frame
  estimator, the linear fitter dividing by the viewport size) the value domain is
  \<open>jsnum\<close>, the reals extended by the two infinities and NaN, with the IEEE 754 rules for
  them. A zero is taken as the positive zero: every zero divisor of the modelled code is the
  result of \<^verbatim>\<open>Math.abs\<close>, an array length or the viewport size. Where no operation
  can leave the finite numbers (the affine fitter, whose only variable divisor is guarded,
  the per-point capture and the validation pass) the numbers are plain reals.
\<close>

datatype jsnum = Fin real | PInf | NInf | NaN

fun jneg :: "jsnum \<Rightarrow> jsnum" where
  "jneg (Fin a) = Fin (- a)"
| "jneg PInf = NInf"
| "jneg NInf = PInf"
| "jneg NaN = NaN"

fun jadd :: "jsnum \<Rightarrow> jsnum \<Rightarrow> jsnum" where
  "jadd (Fin a) (Fin b) = Fin (a + b)"
| "jadd NaN b = NaN"
| "jadd a NaN = NaN"
| "jadd PInf NInf = NaN"
| "jadd NInf PInf = NaN"
| "jadd PInf b = PInf"
| "jadd a PInf = PInf"
| "jadd NInf b = NInf"
| "jadd a NInf = NInf"

definition jsub :: "jsnum \<Rightarrow> jsnum \<Rightarrow> jsnum" where
  "jsub a b = jadd a (jneg b)"

text \<open>An infinity of sign \<open>pos\<close> times a finite number.\<close>

definition inf_times :: "bool \<Rightarrow> real \<Rightarrow> jsnum" where
  "inf_times pos r = (if r = 0 then NaN else if (0 < r) = pos then PInf else NInf)"

fun jmul :: "jsnum \<Rightarrow> jsnum \<Rightarrow> jsnum" where
  "jmul (Fin a) (Fin b) = Fin (a * b)"
| "jmul NaN b = NaN"
| "jmul a NaN = NaN"
| "jmul PInf (Fin b) = inf_times True b"
| "jmul NInf (Fin b) = inf_times False b"
| "jmul (Fin a) PInf = inf_times True a"
| "jmul (Fin a) NInf = inf_times False a"
| "jmul PInf PInf = PInf"
| "jmul NInf NInf = PInf"
| "jmul PInf NInf = NInf"
| "jmul NInf PInf = NInf"

fun jdiv :: "jsnum \<Rightarrow> jsnum \<Rightarrow> jsnum" where
  "jdiv (Fin a) (Fin b) =
     (if b \<noteq> 0 then Fin (a / b)
      else if a = 0 then NaN else if 0 < a then PInf else NInf)"
| "jdiv NaN b = NaN"
| "jdiv a NaN = NaN"
| "jdiv (Fin a) PInf = Fin 0"
| "jdiv (Fin a) NInf = Fin 0"
| "jdiv PInf (Fin b) = (if 0 \<le> b then PInf else NInf)"
| "jdiv NInf (Fin b) = (if 0 \<le> b then NInf else PInf)"
| "jdiv PInf PInf = NaN"
| "jdiv PInf NInf = NaN"
| "jdiv NInf PInf = NaN"
| "jdiv NInf NInf = NaN"

fun jabs :: "jsnum \<Rightarrow> jsnum" where
  "jabs (Fin a) = Fin \<bar>a\<bar>"
| "jabs PInf = PInf"
| "jabs NInf = PInf"
| "jabs NaN = NaN"

text \<open>The comparison \<^verbatim>\<open>a < b\<close>: false as soon as one side is NaN.\<close>

fun jlt :: "jsnum \<Rightarrow> jsnum \<Rightarrow> bool" where
  "jlt (Fin a) (Fin b) = (a < b)"
| "jlt NaN b = False"
| "jlt a NaN = False"
| "jlt a NInf = False"
| "jlt NInf b = True"
| "jlt PInf b = False"
| "jlt a PInf = True"

text \<open>The comparison \<^verbatim>\<open>a >= b\<close>: false as soon as one side is NaN.\<close>

definition jge :: "jsnum \<Rightarrow> jsnum \<Rightarrow> bool" where
  "jge a b = (a \<noteq> NaN \<and> b \<noteq> NaN \<and> \<not> jlt a b)"

text \<open>\<^verbatim>\<open>Math.max\<close> and \<^verbatim>\<open>Math.min\<close> of two arguments: NaN if one of them is.\<close>

definition jmax :: "jsnum \<Rightarrow> jsnum \<Rightarrow> jsnum" where
  "jmax a b = (if a = NaN \<or> b = NaN then NaN else if jlt a b then b else a)"

definition jmin :: "jsnum \<Rightarrow> jsnum \<Rightarrow> jsnum" where
  "jmin a b = (if a = NaN \<or> b = NaN then NaN else if jlt b a then b else a)"

text \<open>\<^verbatim>\<open>Number.isFinite\<close>\<close>

fun isFinite :: "jsnum \<Rightarrow> bool" where
  "isFinite (Fin a) = True"
| "isFinite PInf = False"
| "isFinite NInf = False"
| "isFinite NaN = False"

text \<open>\<^verbatim>\<open>xs.reduce((sum, v) => sum + v, 0)\<close>\<close>

definition jsum :: "jsnum list \<Rightarrow> jsnum" where
  "jsum xs = foldl jadd (Fin 0) xs"

text \<open>\<^verbatim>\<open>xs.slice(-k)\<close>: the last \<open>k\<close> elements, all of them when there are fewer.\<close>

definition slice_last :: "nat \<Rightarrow> 'a list \<Rightarrow> 'a list" where
  "slice_last k xs = drop (length xs - k) xs"

section \<open>Data model\<close>

record 'n Point =
  x :: 'n
  y :: 'n

record 'n Measured = "'n Point" +
  normalizedX :: "'n option"
  normalizedY :: "'n option"

record 'n GazePoint = "'n Measured" +
  timestamp :: real
  confidence :: real

text \<open>\<^verbatim>\<open>SandboxGazeData\<close>: a missing member is \<open>None\<close>; the landmark source delivers
  finite coordinates.\<close>

record SandboxGazeData =
  leftIris :: "real Point option"
  rightIris :: "real Point option"
  landmarks :: "real Point list option"

record LinearMatrix =
  scaleX :: jsnum
  scaleY :: jsnum
  offsetX :: jsnum
  offsetY :: jsnum

text \<open>The fields of \<^verbatim>\<open>MediaPipeTracker\<close> (src/eye/MediaPipeTracker.ts) that the
  estimator reads or writes; \<open>onGazeUpdate\<close> says whether \<^verbatim>\<open>config.onGazeUpdate\<close>
  is set.\<close>

record MediaPipeTracker =
  onGazeUpdate :: bool
  isRunning :: bool
  calibrationMatrix :: LinearMatrix
  gazeHistory :: "jsnum Point list"
  eyeHeightHistory :: "jsnum list"
  stableEyeHeight :: jsnum
  frameCounter :: nat

definition SMOOTHING_WINDOW_X :: nat where "SMOOTHING_WINDOW_X = 8"
definition SMOOTHING_WINDOW_Y :: nat where "SMOOTHING_WINDOW_Y = 4"
definition EYE_HEIGHT_WINDOW :: nat where "EYE_HEIGHT_WINDOW = 15"

text \<open>The field initialisers of the class.\<close>

definition newTracker :: "bool \<Rightarrow> MediaPipeTracker" where
  "newTracker cb =
     \<lparr> onGazeUpdate = cb, isRunning = False,
       calibrationMatrix = \<lparr> scaleX = Fin 1, scaleY = Fin 1, offsetX = Fin 0, offsetY = Fin 0 \<rparr>,
       gazeHistory = [], eyeHeightHistory = [], stableEyeHeight = Fin 0.03, frameCounter = 0 \<rparr>"

section \<open>The per-frame estimator: handleGazeData\<close>

text \<open>Eye geometry from the fixed landmark indices (lines 129-148).\<close>

definition leftEyeWidth :: "real Point list \<Rightarrow> jsnum" where
  "leftEyeWidth ls = jabs (jsub (Fin (x (ls ! 133))) (Fin (x (ls ! 33))))"

definition rightEyeWidth :: "real Point list \<Rightarrow> jsnum" where
  "rightEyeWidth ls = jabs (jsub (Fin (x (ls ! 263))) (Fin (x (ls ! 362))))"

definition avgEyeWidth :: "real Point list \<Rightarrow> jsnum" where
  "avgEyeWidth ls = jdiv (jadd (leftEyeWidth ls) (rightEyeWidth ls)) (Fin 2)"

definition leftEyeHeight :: "real Point list \<Rightarrow> jsnum" where
  "leftEyeHeight ls = jabs (jsub (Fin (y (ls ! 145))) (Fin (y (ls ! 159))))"

definition rightEyeHeight :: "real Point list \<Rightarrow> jsnum" where
  "rightEyeHeight ls = jabs (jsub (Fin (y (ls ! 374))) (Fin (y (ls ! 386))))"

definition currentEyeHeight :: "real Point list \<Rightarrow> jsnum" where
  "currentEyeHeight ls = jdiv (jadd (leftEyeHeight ls) (rightEyeHeight ls)) (Fin 2)"

text \<open>Blink detection (lines 151-152).\<close>

definition aspectRatio :: "real Point list \<Rightarrow> jsnum" where
  "aspectRatio ls = jdiv (currentEyeHeight ls) (avgEyeWidth ls)"

definition isBlinking :: "real Point list \<Rightarrow> bool" where
  "isBlinking ls = jlt (aspectRatio ls) (Fin 0.15)"

text \<open>The moving average of the eye height (lines 160-164): the new history and the new
  \<^verbatim>\<open>stableEyeHeight\<close>.\<close>

definition pushEyeHeight :: "jsnum list \<Rightarrow> jsnum \<Rightarrow> jsnum list \<times> jsnum" where
  "pushEyeHeight hist h =
     (let hist1 = hist @ [h];
          hist2 = (if length hist1 > EYE_HEIGHT_WINDOW then tl hist1 else hist1)
      in (hist2, jdiv (jsum hist2) (Fin (real (length hist2)))))"

text \<open>The iris offset from the eye centre, averaged over both eyes (lines 167-196):
  \<^verbatim>\<open>(normalizedX, normalizedY)\<close>.\<close>

definition normalizedGaze :: "real Point list \<Rightarrow> real Point \<Rightarrow> real Point \<Rightarrow> jsnum \<times> jsnum" where
  "normalizedGaze ls li ri =
     (let leftEyeCenterX = jdiv (jadd (Fin (x (ls ! 33))) (Fin (x (ls ! 133)))) (Fin 2);
          rightEyeCenterX = jdiv (jadd (Fin (x (ls ! 362))) (Fin (x (ls ! 263)))) (Fin 2);
          leftEyeCenterY = jdiv (jadd (Fin (y (ls ! 159))) (Fin (y (ls ! 145)))) (Fin 2);
          rightEyeCenterY = jdiv (jadd (Fin (y (ls ! 386))) (Fin (y (ls ! 374)))) (Fin 2);
          leftIrisOffsetX = jdiv (jsub (Fin (x li)) leftEyeCenterX) (jdiv (leftEyeWidth ls) (Fin 2));
          rightIrisOffsetX = jdiv (jsub (Fin (x ri)) rightEyeCenterX) (jdiv (rightEyeWidth ls) (Fin 2));
          leftIrisOffsetY = jdiv (jsub (Fin (y li)) leftEyeCenterY) (jdiv (leftEyeHeight ls) (Fin 2));
          rightIrisOffsetY = jdiv (jsub (Fin (y ri)) rightEyeCenterY) (jdiv (rightEyeHeight ls) (Fin 2));
          avgIrisOffsetX = jdiv (jadd leftIrisOffsetX rightIrisOffsetX) (Fin 2);
          avgIrisOffsetY = jdiv (jadd leftIrisOffsetY rightIrisOffsetY) (Fin 2)
      in (avgIrisOffsetX, avgIrisOffsetY))"

text \<open>Calibration and the mapping to the screen (lines 199-204):
  \<^verbatim>\<open>(screenX, screenY)\<close>.\<close>

definition screenPoint :: "nat \<Rightarrow> nat \<Rightarrow> LinearMatrix \<Rightarrow> jsnum \<times> jsnum \<Rightarrow> jsnum \<times> jsnum" where
  "screenPoint sw sh m n =
     (let calibratedX = jadd (jmul (fst n) (scaleX m)) (offsetX m);
          calibratedY = jadd (jmul (snd n) (scaleY m)) (offsetY m);
          screenX = jmul (jmul (jadd calibratedX (Fin 1)) (Fin 0.5)) (Fin (real sw));
          screenY = jmul (jmul (jadd calibratedY (Fin 1)) (Fin 0.5)) (Fin (real sh))
      in (screenX, screenY))"

text \<open>The clamp to the screen (lines 207-208): the point \<^verbatim>\<open>{ x: gazeX, y: gazeY }\<close>.\<close>

definition clampToScreen :: "nat \<Rightarrow> nat \<Rightarrow> jsnum \<times> jsnum \<Rightarrow> jsnum Point" where
  "clampToScreen sw sh s =
     \<lparr> x = jmax (Fin 0) (jmin (Fin (real sw)) (fst s)),
       y = jmax (Fin 0) (jmin (Fin (real sh)) (snd s)) \<rparr>"

text \<open>The clamped point of a frame that passed validation and the blink gate.\<close>

definition gazePoint :: "nat \<Rightarrow> nat \<Rightarrow> LinearMatrix \<Rightarrow> real Point list \<Rightarrow> real Point \<Rightarrow> real Point \<Rightarrow> jsnum Point" where
  "gazePoint sw sh m ls li ri = clampToScreen sw sh (screenPoint sw sh m (normalizedGaze ls li ri))"

text \<open>The smoothing buffer (lines 211-215).\<close>

definition pushGaze :: "jsnum Point list \<Rightarrow> jsnum Point \<Rightarrow> jsnum Point list" where
  "pushGaze hist p =
     (let hist1 = hist @ [p];
          maxWindow = max SMOOTHING_WINDOW_X SMOOTHING_WINDOW_Y
      in if length hist1 > maxWindow then tl hist1 else hist1)"

text \<open>The smoothed output (lines 217-220).\<close>

definition smoothedX :: "jsnum Point list \<Rightarrow> jsnum" where
  "smoothedX hist =
     (let recentX = slice_last SMOOTHING_WINDOW_X hist
      in jdiv (jsum (map x recentX)) (Fin (real (length recentX))))"

definition smoothedY :: "jsnum Point list \<Rightarrow> jsnum" where
  "smoothedY hist =
     (let recentY = slice_last SMOOTHING_WINDOW_Y hist
      in jdiv (jsum (map y recentY)) (Fin (real (length recentY))))"

text \<open>
  \<^verbatim>\<open>handleGazeData\<close> (lines 102-248). The viewport size \<open>sw\<close>, \<open>sh\<close>
  (\<^verbatim>\<open>window.innerWidth\<close>, \<^verbatim>\<open>window.innerHeight\<close>) and the clock \<open>now\<close>
  (\<^verbatim>\<open>performance.now()\<close>) are read at every call and so are arguments. The result is the
  tracker after the call and the list of gaze points handed to \<^verbatim>\<open>config.onGazeUpdate\<close>
  during it. Console output is left out.
\<close>

definition handleGazeData ::
  "nat \<Rightarrow> nat \<Rightarrow> real \<Rightarrow> MediaPipeTracker \<Rightarrow> SandboxGazeData \<Rightarrow> MediaPipeTracker \<times> jsnum GazePoint list" where
  "handleGazeData sw sh now t0 d =
     (let t = t0\<lparr> frameCounter := frameCounter t0 + 1 \<rparr> in
      if \<not> isRunning t then (t, [])
      else (case landmarks d of
        None \<Rightarrow> (t, [])
      | Some ls \<Rightarrow>
          if length ls < 478 then (t, [])
          else (case leftIris d of
            None \<Rightarrow> (t, [])
          | Some li \<Rightarrow>
             (case rightIris d of
                None \<Rightarrow> (t, [])
              | Some ri \<Rightarrow>
                  if isBlinking ls then (t, [])
                  else
                    (let (hh, stable) = pushEyeHeight (eyeHeightHistory t) (currentEyeHeight ls);
                         n = normalizedGaze ls li ri;
                         g = clampToScreen sw sh (screenPoint sw sh (calibrationMatrix t) n);
                         gh = pushGaze (gazeHistory t) g;
                         t' = t\<lparr> eyeHeightHistory := hh, stableEyeHeight := stable, gazeHistory := gh \<rparr>
                     in if onGazeUpdate t'
                        then (t', [\<lparr> x = smoothedX gh, y = smoothedY gh,
                                     normalizedX = Some (fst n), normalizedY = Some (snd n),
                                     timestamp = now, confidence = 0.8 \<rparr>])
                        else (t', []))))))"


text \<open>The bridge delivers one frame after the other; each call reads the viewport and the
  clock anew. The gaze points handed to the callback are collected in order.\<close>

fun runFrames ::
  "MediaPipeTracker \<Rightarrow> (nat \<times> nat \<times> real \<times> SandboxGazeData) list \<Rightarrow> MediaPipeTracker \<times> jsnum GazePoint list" where
  "runFrames t [] = (t, [])"
| "runFrames t ((sw, sh, now, d) # fs) =
     (let (t1, out1) = handleGazeData sw sh now t d;
          (t2, out2) = runFrames t1 fs
      in (t2, out1 @ out2))"

text \<open>A frame as the specification wants it: at least 478 landmarks and both iris points.\<close>

definition frameValid :: "SandboxGazeData \<Rightarrow> bool" where
  "frameValid d =
     ((case landmarks d of None \<Rightarrow> False | Some ls \<Rightarrow> 478 \<le> length ls)
      \<and> leftIris d \<noteq> None \<and> rightIris d \<noteq> None)"

text \<open>The frame passes validation and the blink gate, and its clamped point under the
  matrix \<open>m\<close> is \<open>p\<close>.\<close>

definition feedsPoint :: "LinearMatrix \<Rightarrow> jsnum Point \<Rightarrow> nat \<times> nat \<times> real \<times> SandboxGazeData \<Rightarrow> bool" where
  "feedsPoint m p f =
     (case f of (sw, sh, now, d) \<Rightarrow>
        (case landmarks d of
           None \<Rightarrow> False
         | Some ls \<Rightarrow>
             478 \<le> length ls \<and> \<not> isBlinking ls \<and>
             (case leftIris d of
                None \<Rightarrow> False
              | Some li \<Rightarrow>
                 (case rightIris d of
                    None \<Rightarrow> False
                  | Some ri \<Rightarrow> gazePoint sw sh m ls li ri = p))))"

text \<open>A point with finite coordinates inside the viewport \<open>[0, sw] \<times> [0, sh]\<close>.\<close>

definition inBounds :: "nat \<Rightarrow> nat \<Rightarrow> (jsnum, 'm) Point_scheme \<Rightarrow> bool" where
  "inBounds sw sh p =
     (case (x p, y p) of
        (Fin gx, Fin gy) \<Rightarrow> 0 \<le> gx \<and> gx \<le> real sw \<and> 0 \<le> gy \<and> gy \<le> real sh
      | _ \<Rightarrow> False)"

text \<open>
  The frame is processed under the viewport \<open>sw \<times> sh\<close> and, if it passes validation and
  the blink gate, neither coordinate of its screen point under the matrix \<open>m\<close> is NaN.
\<close>

definition steadyFrame :: "nat \<Rightarrow> nat \<Rightarrow> LinearMatrix \<Rightarrow> nat \<times> nat \<times> real \<times> SandboxGazeData \<Rightarrow> bool" where
  "steadyFrame sw sh m f =
     (case f of (sw', sh', now, d) \<Rightarrow>
        sw' = sw \<and> sh' = sh \<and>
        (case landmarks d of
           None \<Rightarrow> True
         | Some ls \<Rightarrow>
            (case leftIris d of
               None \<Rightarrow> True
             | Some li \<Rightarrow>
                (case rightIris d of
                   None \<Rightarrow> True
                 | Some ri \<Rightarrow>
                     length ls < 478 \<or> isBlinking ls \<or>
                     (fst (screenPoint sw sh m (normalizedGaze ls li ri)) \<noteq> NaN
                      \<and> snd (screenPoint sw sh m (normalizedGaze ls li ri)) \<noteq> NaN)))))"

subsection \<open>Sample frames\<close>

text \<open>
  A face with both eyes 0.2 wide and \<open>h\<close> high, the eye centres at (0.3, 0.45) and
  (0.7, 0.45), and both irises displaced from the centre by \<open>gx\<close> half-widths and \<open>gy\<close>
  half-heights. The landmarks that the estimator does not read are at (0.5, 0.5).
\<close>

definition exampleLandmarks :: "real \<Rightarrow> real Point list" where
  "exampleLandmarks h =
     map (\<lambda>i. if i = 33 then \<lparr> x = 0.2, y = 0.45 \<rparr>
               else if i = 133 then \<lparr> x = 0.4, y = 0.45 \<rparr>
               else if i = 362 then \<lparr> x = 0.6, y = 0.45 \<rparr>
               else if i = 263 then \<lparr> x = 0.8, y = 0.45 \<rparr>
               else if i = 159 then \<lparr> x = 0.3, y = 0.45 - h / 2 \<rparr>
               else if i = 145 then \<lparr> x = 0.3, y = 0.45 + h / 2 \<rparr>
               else if i = 386 then \<lparr> x = 0.7, y = 0.45 - h / 2 \<rparr>
               else if i = 374 then \<lparr> x = 0.7, y = 0.45 + h / 2 \<rparr>
               else \<lparr> x = 0.5, y = 0.5 \<rparr>) [0..<478]"

definition exampleFrame :: "real \<Rightarrow> real \<Rightarrow> real \<Rightarrow> SandboxGazeData" where
  "exampleFrame h gx gy =
     \<lparr> leftIris = Some \<lparr> x = 0.3 + 0.1 * gx, y = 0.45 + (h / 2) * gy \<rparr>,
       rightIris = Some \<lparr> x = 0.7 + 0.1 * gx, y = 0.45 + (h / 2) * gy \<rparr>,
       landmarks = Some (exampleLandmarks h) \<rparr>"

text \<open>The face of \<open>exampleLandmarks 0.1\<close> with both corners of the left eye at x = 0.2, and
  the left iris there too: the left eye has width 0.\<close>

definition zeroWidthFrame :: SandboxGazeData where
  "zeroWidthFrame =
     \<lparr> leftIris = Some \<lparr> x = 0.2, y = 0.45 \<rparr>,
       rightIris = Some \<lparr> x = 0.7, y = 0.45 \<rparr>,
       landmarks = Some ((exampleLandmarks 0.1)[133 := \<lparr> x = 0.2, y = 0.45 \<rparr>]) \<rparr>"

text \<open>A started tracker, with or without the callback.\<close>

definition startedTracker :: "bool \<Rightarrow> MediaPipeTracker" where
  "startedTracker cb = (newTracker cb)\<lparr> isRunning := True \<rparr>"

section \<open>The linear fitter: applyCalibration (src/eye/MediaPipeTracker.ts)\<close>

text \<open>A calibration sample as the caller passes it; the samples are finite numbers.\<close>

record CalibrationPoint =
  actual :: "real Point"
  measured :: "real Measured"

text \<open>An element of \<^verbatim>\<open>normalizedPoints\<close> (its fields \<^verbatim>\<open>actual\<close> and
  \<^verbatim>\<open>measured\<close>).\<close>

record NormalizedPoint =
  actualN :: "jsnum Point"
  measuredN :: "jsnum Point"

text \<open>The conversion to normalized coordinates (lines 272-282).\<close>

definition normalizePoint :: "nat \<Rightarrow> nat \<Rightarrow> 'z CalibrationPoint_scheme \<Rightarrow> NormalizedPoint" where
  "normalizePoint sw sh p =
     \<lparr> actualN =
         \<lparr> x = jsub (jmul (jdiv (Fin (x (actual p))) (Fin (real sw))) (Fin 2)) (Fin 1),
           y = jsub (jmul (jdiv (Fin (y (actual p))) (Fin (real sh))) (Fin 2)) (Fin 1) \<rparr>,
       measuredN =
         \<lparr> x = (case normalizedX (measured p) of
                  Some v \<Rightarrow> Fin v
                | None \<Rightarrow> jsub (jmul (jdiv (Fin (x (measured p))) (Fin (real sw))) (Fin 2)) (Fin 1)),
           y = (case normalizedY (measured p) of
                  Some v \<Rightarrow> Fin v
                | None \<Rightarrow> jsub (jmul (jdiv (Fin (y (measured p))) (Fin (real sh))) (Fin 2)) (Fin 1)) \<rparr> \<rparr>"

text \<open>The first loop (lines 292-300): the sums
  \<^verbatim>\<open>(meanActualX, meanActualY, meanMeasuredX, meanMeasuredY)\<close> before the division.\<close>

definition sumCoordinates :: "NormalizedPoint list \<Rightarrow> jsnum \<times> jsnum \<times> jsnum \<times> jsnum" where
  "sumCoordinates nps =
     foldl (\<lambda>(meanActualX, meanActualY, meanMeasuredX, meanMeasuredY) p.
              (jadd meanActualX (x (actualN p)), jadd meanActualY (y (actualN p)),
               jadd meanMeasuredX (x (measuredN p)), jadd meanMeasuredY (y (measuredN p))))
       (Fin 0, Fin 0, Fin 0, Fin 0) nps"

text \<open>The second loop (lines 308-320):
  \<^verbatim>\<open>(numeratorX, denominatorX, numeratorY, denominatorY)\<close>.\<close>

definition sumProducts ::
  "jsnum \<Rightarrow> jsnum \<Rightarrow> jsnum \<Rightarrow> jsnum \<Rightarrow> NormalizedPoint list \<Rightarrow> jsnum \<times> jsnum \<times> jsnum \<times> jsnum" where
  "sumProducts meanActualX meanActualY meanMeasuredX meanMeasuredY nps =
     foldl (\<lambda>(numeratorX, denominatorX, numeratorY, denominatorY) p.
              (let dx = jsub (x (measuredN p)) meanMeasuredX;
                   dy = jsub (y (measuredN p)) meanMeasuredY
               in (jadd numeratorX (jmul dx (jsub (x (actualN p)) meanActualX)),
                   jadd denominatorX (jmul dx dx),
                   jadd numeratorY (jmul dy (jsub (y (actualN p)) meanActualY)),
                   jadd denominatorY (jmul dy dy))))
       (Fin 0, Fin 0, Fin 0, Fin 0) nps"

text \<open>
  \<^verbatim>\<open>applyCalibration\<close> (lines 260-368). The viewport is an argument. The loop after
  the assignment of \<^verbatim>\<open>this.calibrationMatrix\<close> only computes what is logged and is
  left out.
\<close>

definition applyCalibration ::
  "nat \<Rightarrow> nat \<Rightarrow> MediaPipeTracker \<Rightarrow> 'z CalibrationPoint_scheme list \<Rightarrow> MediaPipeTracker" where
  "applyCalibration sw sh t points =
     (if length points = 0 then t
      else
        (let normalizedPoints = map (normalizePoint sw sh) points;
             n = Fin (real (length normalizedPoints));
             (sumActualX, sumActualY, sumMeasuredX, sumMeasuredY) = sumCoordinates normalizedPoints;
             meanActualX = jdiv sumActualX n;
             meanActualY = jdiv sumActualY n;
             meanMeasuredX = jdiv sumMeasuredX n;
             meanMeasuredY = jdiv sumMeasuredY n;
             (numeratorX, denominatorX, numeratorY, denominatorY) =
                sumProducts meanActualX meanActualY meanMeasuredX meanMeasuredY normalizedPoints;
             sX = (if denominatorX \<noteq> Fin 0 then jdiv numeratorX denominatorX else Fin 1);
             sY = (if denominatorY \<noteq> Fin 0 then jdiv numeratorY denominatorY else Fin 1);
             oX = jsub meanActualX (jmul sX meanMeasuredX);
             oY = jsub meanActualY (jmul sY meanMeasuredY)
         in t\<lparr> calibrationMatrix := \<lparr> scaleX = sX, scaleY = sY, offsetX = oX, offsetY = oY \<rparr> \<rparr>))"

subsection \<open>The fit as the specification words it\<close>





definition mean :: "real list \<Rightarrow> real" where
  "mean vs = sum_list vs / real (length vs)"






text \<open>A sample with the target and the raw normalized measurement given.\<close>

definition sample :: "real \<Rightarrow> real \<Rightarrow> real \<Rightarrow> real \<Rightarrow> CalibrationPoint" where
  "sample tX tY nX nY =
     \<lparr> actual = \<lparr> x = tX, y = tY \<rparr>,
       measured = \<lparr> x = tX, y = tY, normalizedX = Some nX, normalizedY = Some nY \<rparr> \<rparr>"

section \<open>The affine fitter (the MediaPipeTracker variant in docs/feature_map.md)\<close>

text \<open>
  This variant of the class fits a 2x3 matrix. Its only variable divisor is guarded, so its
  numbers are reals. The fields \<^verbatim>\<open>a\<close>, \<^verbatim>\<open>b\<close>, \<^verbatim>\<open>c\<close>, \<^verbatim>\<open>d\<close> of the
  matrix are \<open>m_a\<close>, \<open>m_b\<close>, \<open>m_c\<close>, \<open>m_d\<close> here, the field \<^verbatim>\<open>calibrationMatrix\<close>
  of this variant is \<open>affineMatrix\<close>, and its \<^verbatim>\<open>applyCalibration\<close> is
  \<open>applyCalibrationAffine\<close>.
\<close>

record QualityPoint = CalibrationPoint +
  stdDev :: "real option"

record AffineMatrix =
  m_a :: real
  m_b :: real
  m_c :: real
  m_d :: real
  tx :: real
  ty :: real

record AffineTracker =
  affineMatrix :: AffineMatrix
  isCalibrated :: bool

text \<open>The field initialisers (lines 162-174 of the file).\<close>

definition newAffineTracker :: AffineTracker where
  "newAffineTracker =
     \<lparr> affineMatrix = \<lparr> m_a = 1, m_b = 0, m_c = 0, m_d = 1, tx = 0, ty = 0 \<rparr>,
       isCalibrated = False \<rparr>"

text \<open>\<^verbatim>\<open>useDefaultCalibration\<close> (lines 656-679).\<close>

definition useDefaultCalibration :: "nat \<Rightarrow> nat \<Rightarrow> AffineTracker \<Rightarrow> AffineTracker" where
  "useDefaultCalibration sw sh t =
     (let irisRange = 0.6 in
      t\<lparr> affineMatrix :=
           \<lparr> m_a = real sw / irisRange, m_b = 0, m_c = 0, m_d = real sh / irisRange,
             tx = real sw / 2, ty = real sh / 2 \<rparr>,
         isCalibrated := True \<rparr>)"

text \<open>The outlier filter (lines 474-481): \<^verbatim>\<open>!p.stdDev || p.stdDev < MAX_STDDEV\<close>, where
  \<^verbatim>\<open>!p.stdDev\<close> holds for a missing value and for 0.\<close>

definition MAX_STDDEV :: real where "MAX_STDDEV = 50"

definition isGood :: "'z QualityPoint_scheme \<Rightarrow> bool" where
  "isGood p = (case stdDev p of None \<Rightarrow> True | Some s \<Rightarrow> s = 0 \<or> s < MAX_STDDEV)"

definition goodPoints :: "'z QualityPoint_scheme list \<Rightarrow> 'z QualityPoint_scheme list" where
  "goodPoints points = filter isGood points"

text \<open>An element of \<^verbatim>\<open>data\<close> (lines 496-503).\<close>

record Datum =
  srcX :: real
  srcY :: real
  dstX :: real
  dstY :: real

definition toDatum :: "'z QualityPoint_scheme \<Rightarrow> Datum" where
  "toDatum p =
     \<lparr> srcX = (case normalizedX (measured p) of Some v \<Rightarrow> v | None \<Rightarrow> 0),
       srcY = (case normalizedY (measured p) of Some v \<Rightarrow> v | None \<Rightarrow> 0),
       dstX = x (actual p),
       dstY = y (actual p) \<rparr>"

text \<open>The accumulators of the loop of lines 522-540.\<close>

record Sums =
  sumX :: real
  sumY :: real
  sumXX :: real
  sumYY :: real
  sumXY :: real
  sumDstX :: real
  sumDstY :: real
  sumXDstX :: real
  sumYDstX :: real
  sumXDstY :: real
  sumYDstY :: real

definition accumulate :: "Sums \<Rightarrow> Datum \<Rightarrow> Sums" where
  "accumulate s p =
     \<lparr> sumX = sumX s + srcX p,
       sumY = sumY s + srcY p,
       sumXX = sumXX s + srcX p * srcX p,
       sumYY = sumYY s + srcY p * srcY p,
       sumXY = sumXY s + srcX p * srcY p,
       sumDstX = sumDstX s + dstX p,
       sumDstY = sumDstY s + dstY p,
       sumXDstX = sumXDstX s + srcX p * dstX p,
       sumYDstX = sumYDstX s + srcY p * dstX p,
       sumXDstY = sumXDstY s + srcX p * dstY p,
       sumYDstY = sumYDstY s + srcY p * dstY p \<rparr>"

definition sumsOf :: "Datum list \<Rightarrow> Sums" where
  "sumsOf data =
     foldl accumulate
       \<lparr> sumX = 0, sumY = 0, sumXX = 0, sumYY = 0, sumXY = 0, sumDstX = 0, sumDstY = 0,
         sumXDstX = 0, sumYDstX = 0, sumXDstY = 0, sumYDstY = 0 \<rparr> data"

text \<open>The determinant of the normal equations (lines 545-547).\<close>

definition detA :: "Sums \<Rightarrow> real \<Rightarrow> real" where
  "detA s n =
     sumXX s * (sumYY s * n - sumY s * sumY s)
     - sumXY s * (sumXY s * n - sumY s * sumX s)
     + sumX s * (sumXY s * sumY s - sumYY s * sumX s)"

text \<open>Cramer's rule for both rows (lines 556-587).\<close>

definition fitMatrix :: "Sums \<Rightarrow> real \<Rightarrow> AffineMatrix" where
  "fitMatrix s n =
     (let detAa = sumXDstX s * (sumYY s * n - sumY s * sumY s)
                - sumXY s * (sumYDstX s * n - sumY s * sumDstX s)
                + sumX s * (sumYDstX s * sumY s - sumYY s * sumDstX s);
          detAb = sumXX s * (sumYDstX s * n - sumY s * sumDstX s)
                - sumXDstX s * (sumXY s * n - sumY s * sumX s)
                + sumX s * (sumXY s * sumDstX s - sumYDstX s * sumX s);
          detAtx = sumXX s * (sumYY s * sumDstX s - sumYDstX s * sumY s)
                 - sumXY s * (sumXY s * sumDstX s - sumYDstX s * sumX s)
                 + sumXDstX s * (sumXY s * sumY s - sumYY s * sumX s);
          detAc = sumXDstY s * (sumYY s * n - sumY s * sumY s)
                - sumXY s * (sumYDstY s * n - sumY s * sumDstY s)
                + sumX s * (sumYDstY s * sumY s - sumYY s * sumDstY s);
          detAd = sumXX s * (sumYDstY s * n - sumY s * sumDstY s)
                - sumXDstY s * (sumXY s * n - sumY s * sumX s)
                + sumX s * (sumXY s * sumDstY s - sumYDstY s * sumX s);
          detAty = sumXX s * (sumYY s * sumDstY s - sumYDstY s * sumY s)
                 - sumXY s * (sumXY s * sumDstY s - sumYDstY s * sumX s)
                 + sumXDstY s * (sumXY s * sumY s - sumYY s * sumX s)
      in \<lparr> m_a = detAa / detA s n, m_b = detAb / detA s n,
           m_c = detAc / detA s n, m_d = detAd / detA s n,
           tx = detAtx / detA s n, ty = detAty / detA s n \<rparr>)"

text \<open>The sanity check (lines 597-602): the expected scale, its bounds and the two effective
  scales of a matrix.\<close>

definition expectedScale :: "nat \<Rightarrow> real" where
  "expectedScale sw = real sw / 0.6"

definition MAX_SCALE :: "nat \<Rightarrow> real" where
  "MAX_SCALE sw = expectedScale sw * 3"

definition MIN_SCALE :: "nat \<Rightarrow> real" where
  "MIN_SCALE sw = expectedScale sw / 5"

definition effectiveScaleX :: "AffineMatrix \<Rightarrow> real" where
  "effectiveScaleX m = sqrt (m_a m * m_a m + m_c m * m_c m)"

definition primaryScaleY :: "AffineMatrix \<Rightarrow> real" where
  "primaryScaleY m = \<bar>m_d m\<bar>"

text \<open>
  \<^verbatim>\<open>applyCalibration\<close> of the affine variant (lines 463-650). The loop after the
  assignment only computes what is logged and is left out.
\<close>

definition applyCalibrationAffine ::
  "nat \<Rightarrow> nat \<Rightarrow> AffineTracker \<Rightarrow> 'z QualityPoint_scheme list \<Rightarrow> AffineTracker" where
  "applyCalibrationAffine sw sh t points =
     (if length points = 0 then t
      else if length (goodPoints points) < 4 then useDefaultCalibration sw sh t
      else
        (let data = map toDatum (goodPoints points);
             n = real (length data);
             s = sumsOf data
         in if \<bar>detA s n\<bar> < 1 / 10 ^ 10 then useDefaultCalibration sw sh t
            else
              (let m = fitMatrix s n
               in if effectiveScaleX m > MAX_SCALE sw \<or> effectiveScaleX m < MIN_SCALE sw
                  then useDefaultCalibration sw sh t
                  else if primaryScaleY m > MAX_SCALE sw \<or> primaryScaleY m < MIN_SCALE sw
                  then useDefaultCalibration sw sh t
                  else t\<lparr> affineMatrix := m, isCalibrated := True \<rparr>)))"

text \<open>The determinant and the matrix that the fit computes from the samples that pass the
  outlier filter.\<close>

definition fitDeterminant :: "'z QualityPoint_scheme list \<Rightarrow> real" where
  "fitDeterminant points =
     detA (sumsOf (map toDatum (goodPoints points))) (real (length (map toDatum (goodPoints points))))"

definition fittedMatrix :: "'z QualityPoint_scheme list \<Rightarrow> AffineMatrix" where
  "fittedMatrix points =
     fitMatrix (sumsOf (map toDatum (goodPoints points))) (real (length (map toDatum (goodPoints points))))"

text \<open>The transform as the estimator of this variant applies it to a raw normalized gaze
  (lines 405-407), and its clamp to the screen (lines 411-412).\<close>

definition affineMap :: "AffineMatrix \<Rightarrow> real \<Rightarrow> real \<Rightarrow> real \<times> real" where
  "affineMap m normX normY =
     (m_a m * normX + m_b m * normY + tx m, m_c m * normX + m_d m * normY + ty m)"

definition clampAffine :: "nat \<Rightarrow> nat \<Rightarrow> real \<times> real \<Rightarrow> real \<times> real" where
  "clampAffine sw sh g = (max 0 (min (real sw) (fst g)), max 0 (min (real sh) (snd g)))"

text \<open>A sample of the affine fitter: target, raw normalized measurement, deviation.\<close>

definition qualitySample :: "real \<Rightarrow> real \<Rightarrow> real \<Rightarrow> real \<Rightarrow> real \<Rightarrow> QualityPoint" where
  "qualitySample tX tY nX nY sd =
     \<lparr> actual = \<lparr> x = tX, y = tY \<rparr>,
       measured = \<lparr> x = tX, y = tY, normalizedX = Some nX, normalizedY = Some nY \<rparr>,
       stdDev = Some sd \<rparr>"

section \<open>The per-point capture routine (runCalibration in src/popup/App.tsx)\<close>

text \<open>
  The routine pushes \<^verbatim>\<open>currentGaze\<close> into \<^verbatim>\<open>samples\<close> at every tick, so one
  gaze point object can stand in the array several times, and \<^verbatim>\<open>indexOf\<close> compares
  objects by identity. The samples are therefore references, and \<open>heap\<close> gives the gaze
  point that a reference stands for. The coordinates of the samples are finite numbers.
\<close>

type_synonym ref = nat

definition sampleCount :: nat where "sampleCount = 50"

text \<open>\<^verbatim>\<open>xs.indexOf(v)\<close>: the first index of \<open>v\<close>, or -1.\<close>

fun indexOf :: "'a list \<Rightarrow> 'a \<Rightarrow> int" where
  "indexOf [] v = - 1"
| "indexOf (u # us) v = (if u = v then 0 else if indexOf us v < 0 then - 1 else indexOf us v + 1)"

text \<open>\<^verbatim>\<open>[...samples].sort((a, b) => a.x - b.x)\<close>; the sort of an array is stable.\<close>

definition sortedX :: "(ref \<Rightarrow> real GazePoint) \<Rightarrow> ref list \<Rightarrow> ref list" where
  "sortedX heap samples = sort_key (\<lambda>r. x (heap r)) samples"

definition sortedY :: "(ref \<Rightarrow> real GazePoint) \<Rightarrow> ref list \<Rightarrow> ref list" where
  "sortedY heap samples = sort_key (\<lambda>r. y (heap r)) samples"

text \<open>\<^verbatim>\<open>Math.floor(sampleCount * 0.1)\<close>\<close>

definition trimCount :: int where
  "trimCount = \<lfloor>real sampleCount * 0.1\<rfloor>"

definition xRank :: "(ref \<Rightarrow> real GazePoint) \<Rightarrow> ref list \<Rightarrow> ref \<Rightarrow> int" where
  "xRank heap samples r = indexOf (sortedX heap samples) r"

definition yRank :: "(ref \<Rightarrow> real GazePoint) \<Rightarrow> ref list \<Rightarrow> ref \<Rightarrow> int" where
  "yRank heap samples r = indexOf (sortedY heap samples) r"

text \<open>The filter of lines 312-317; its predicate reads the element \<^verbatim>\<open>samples[i]\<close> only.\<close>

definition trimmedSamples :: "(ref \<Rightarrow> real GazePoint) \<Rightarrow> ref list \<Rightarrow> ref list" where
  "trimmedSamples heap samples =
     filter (\<lambda>r. xRank heap samples r \<ge> trimCount
                \<and> xRank heap samples r < int sampleCount - trimCount
                \<and> yRank heap samples r \<ge> trimCount
                \<and> yRank heap samples r < int sampleCount - trimCount) samples"

definition validSamples :: "(ref \<Rightarrow> real GazePoint) \<Rightarrow> ref list \<Rightarrow> ref list" where
  "validSamples heap samples =
     (if length (trimmedSamples heap samples) \<ge> 10 then trimmedSamples heap samples else samples)"

text \<open>\<^verbatim>\<open>g.normalizedX || 0\<close>\<close>

definition orZero :: "real option \<Rightarrow> real" where
  "orZero v = (case v of None \<Rightarrow> 0 | Some r \<Rightarrow> r)"

text \<open>The sample that the routine appends to \<^verbatim>\<open>calibrationData\<close> for the target
  (lines 319-340).\<close>

definition capturePoint :: "(ref \<Rightarrow> real GazePoint) \<Rightarrow> ref list \<Rightarrow> real Point \<Rightarrow> QualityPoint" where
  "capturePoint heap samples targetPoint =
     (let vs = validSamples heap samples;
          n = real (length vs);
          avgX = foldl (\<lambda>sum g. sum + x (heap g)) 0 vs / n;
          avgY = foldl (\<lambda>sum g. sum + y (heap g)) 0 vs / n;
          avgNormX = foldl (\<lambda>sum g. sum + orZero (normalizedX (heap g))) 0 vs / n;
          avgNormY = foldl (\<lambda>sum g. sum + orZero (normalizedY (heap g))) 0 vs / n;
          varX = foldl (\<lambda>sum g. sum + (x (heap g) - avgX) ^ 2) 0 vs / n;
          varY = foldl (\<lambda>sum g. sum + (y (heap g) - avgY) ^ 2) 0 vs / n
      in \<lparr> actual = targetPoint,
           measured = \<lparr> x = avgX, y = avgY, normalizedX = Some avgNormX, normalizedY = Some avgNormY \<rparr>,
           stdDev = Some (sqrt (varX + varY)) \<rparr>)"

text \<open>The variance of the specification: the mean squared deviation from the mean.\<close>

definition variance :: "real list \<Rightarrow> real" where
  "variance vs = (\<Sum>v \<leftarrow> vs. (v - mean vs) ^ 2) / real (length vs)"

section \<open>The validation pass (CalibrationSystem.runValidation)\<close>

text \<open>\<^verbatim>\<open>generateCalibrationGrid\<close> (lines 52-72).\<close>

definition generateCalibrationGrid :: "nat \<Rightarrow> nat \<Rightarrow> real Point list" where
  "generateCalibrationGrid width height =
     map (\<lambda>(px, py). \<lparr> x = real width * px, y = real height * py \<rparr>)
       [(0.15, 0.15), (0.5, 0.15), (0.85, 0.15),
        (0.15, 0.5), (0.5, 0.5), (0.85, 0.5),
        (0.15, 0.85), (0.5, 0.85), (0.85, 0.85)]"

text \<open>\<^verbatim>\<open>validationPoints\<close> (lines 442-448).\<close>

definition validationPoints :: "nat \<Rightarrow> nat \<Rightarrow> real Point list" where
  "validationPoints sw sh =
     [\<lparr> x = real sw * 0.3, y = real sh * 0.3 \<rparr>,
      \<lparr> x = real sw * 0.7, y = real sh * 0.3 \<rparr>,
      \<lparr> x = real sw * 0.5, y = real sh * 0.5 \<rparr>,
      \<lparr> x = real sw * 0.3, y = real sh * 0.7 \<rparr>,
      \<lparr> x = real sw * 0.7, y = real sh * 0.7 \<rparr>]"

text \<open>
  \<^verbatim>\<open>showNextPoint\<close> (lines 453-513) from the current index on. The capture routine of
  the caller is a function of its own state \<open>'s\<close> and the target; the timers only delay the
  steps, which run one after the other. The overlay is left out.
\<close>

fun showNextPoint ::
  "('s \<Rightarrow> real Point \<Rightarrow> real Point \<times> 's) \<Rightarrow> 's \<Rightarrow> real Point list \<Rightarrow> real list \<Rightarrow> real list \<times> 's" where
  "showNextPoint onGazeCapture s [] errors = (errors, s)"
| "showNextPoint onGazeCapture s (point # rest) errors =
     (let (m, s') = onGazeCapture s point;
          err = sqrt ((x m - x point) ^ 2 + (y m - y point) ^ 2)
      in showNextPoint onGazeCapture s' rest (errors @ [err]))"

record ValidationResult =
  success :: bool
  avgError :: real

text \<open>\<^verbatim>\<open>runValidation\<close> (lines 380-517): the result it resolves with, and the state of
  the capture routine afterwards.\<close>

definition runValidation ::
  "nat \<Rightarrow> nat \<Rightarrow> ('s \<Rightarrow> real Point \<Rightarrow> real Point \<times> 's) \<Rightarrow> 's \<Rightarrow> ValidationResult \<times> 's" where
  "runValidation sw sh onGazeCapture s =
     (let (errors, s') = showNextPoint onGazeCapture s (validationPoints sw sh) [];
          avg = foldl (\<lambda>u v. u + v) 0 errors / real (length errors)
      in (\<lparr> success = avg < 100, avgError = avg \<rparr>, s'))"

text \<open>The measurements that the capture routine returns for a list of targets, in order.\<close>

fun measurements :: "('s \<Rightarrow> real Point \<Rightarrow> real Point \<times> 's) \<Rightarrow> 's \<Rightarrow> real Point list \<Rightarrow> real Point list" where
  "measurements onGazeCapture s [] = []"
| "measurements onGazeCapture s (point # rest) =
     fst (onGazeCapture s point) # measurements onGazeCapture (snd (onGazeCapture s point)) rest"

text \<open>The Euclidean distance of two screen points.\<close>

definition distance :: "real Point \<Rightarrow> real Point \<Rightarrow> real" where
  "distance p q = sqrt ((x p - x q) ^ 2 + (y p - y q) ^ 2)"

text \<open>Fifty gaze points, one object per tick, moving along the diagonal \<open>x = y = r\<close>.\<close>

definition diagonalHeap :: "ref \<Rightarrow> real GazePoint" where
  "diagonalHeap r =
     \<lparr> x = real r, y = real r, normalizedX = Some (real r / 100), normalizedY = None,
       timestamp = 40 * real r, confidence = 0.8 \<rparr>"

text \<open>
  A capture during which the tracker stalls: forty gaze points along the diagonal, one
  object per tick, then a last gaze point far away at (1000, 1000) that stays the current
  one for the remaining ten ticks, so the same object is pushed ten times.
\<close>

definition stalledHeap :: "ref \<Rightarrow> real GazePoint" where
  "stalledHeap r =
     (if r < 40 then diagonalHeap r
      else \<lparr> x = 1000, y = 1000, normalizedX = Some 0.9, normalizedY = Some 0.9,
             timestamp = 1600, confidence = 0.8 \<rparr>)"

definition stalledSamples :: "ref list" where
  "stalledSamples = [0..<40] @ replicate 10 40"

section \<open>Double-precision arithmetic\<close>

text \<open>
  The sections above compute with exact reals. A JavaScript \<^verbatim>\<open>number\<close> is an IEEE 754
  binary64 value, and every arithmetic operation returns the exact result rounded to the
  nearest double, ties to the even mantissa. This section adds the rounding, and the two
  sections after it give the per-frame estimator and the linear fitter with every operation
  rounded, for the properties that depend on it.

  \<open>exponent r\<close> is the binary exponent of \<open>r\<close>, not below that of the smallest normal
  double; \<open>ulp r\<close> is the distance between neighbouring doubles at \<open>r\<close>. \<open>toDouble r\<close> is
  the double nearest to \<open>r\<close>: a multiple of \<open>ulp r\<close> with a mantissa of at most 53 bits,
  or an infinity when that multiple reaches \<open>2\<^sup>1\<^sup>0\<^sup>2\<^sup>4\<close>. The sign of a zero is not
  modelled.
\<close>

definition exponent :: "real \<Rightarrow> int" where
  "exponent r = max \<lfloor>log 2 \<bar>r\<bar>\<rfloor> (- 1022)"

definition ulp :: "real \<Rightarrow> real" where
  "ulp r = 2 powi (exponent r - 52)"

text \<open>The integer nearest to \<open>z\<close>, the even one of two that are equally near.\<close>

definition roundEven :: "real \<Rightarrow> int" where
  "roundEven z =
     (let f = \<lfloor>z\<rfloor>
      in if z - of_int f < 1 / 2 then f
         else if 1 / 2 < z - of_int f then f + 1
         else if even f then f else f + 1)"

definition overflow :: real where
  "overflow = 2 ^ 1024"

definition toDouble :: "real \<Rightarrow> jsnum" where
  "toDouble r =
     (if r = 0 then Fin 0
      else (let q = of_int (roundEven (r / ulp r)) * ulp r
            in if overflow \<le> \<bar>q\<bar> then (if 0 < r then PInf else NInf) else Fin q))"

text \<open>The rounding of a result; an infinity and NaN stay what they are.\<close>

fun rnd :: "jsnum \<Rightarrow> jsnum" where
  "rnd (Fin r) = toDouble r"
| "rnd PInf = PInf"
| "rnd NInf = NInf"
| "rnd NaN = NaN"

text \<open>The four operations of JavaScript: the exact result, rounded. Negation, the absolute
  value, the comparisons, \<^verbatim>\<open>Math.max\<close> and \<^verbatim>\<open>Math.min\<close> return one of their
  arguments or its negative and need no rounding.\<close>

definition fadd :: "jsnum \<Rightarrow> jsnum \<Rightarrow> jsnum" where
  "fadd a b = rnd (jadd a b)"

definition fsub :: "jsnum \<Rightarrow> jsnum \<Rightarrow> jsnum" where
  "fsub a b = rnd (jsub a b)"

definition fmul :: "jsnum \<Rightarrow> jsnum \<Rightarrow> jsnum" where
  "fmul a b = rnd (jmul a b)"

definition fdiv :: "jsnum \<Rightarrow> jsnum \<Rightarrow> jsnum" where
  "fdiv a b = rnd (jdiv a b)"

text \<open>\<^verbatim>\<open>xs.reduce((sum, v) => sum + v, 0)\<close>\<close>

definition fsum :: "jsnum list \<Rightarrow> jsnum" where
  "fsum xs = foldl fadd (Fin 0) xs"

section \<open>The per-frame estimator in double precision\<close>

text \<open>
  \<^verbatim>\<open>handleGazeData\<close> (src/eye/MediaPipeTracker.ts, lines 102-248) once more, now with
  every operation rounded. A coordinate of the input is read as the double nearest to it,
  and so is the literal \<^verbatim>\<open>0.15\<close>; the literals 0.5, 1 and 2, the viewport size and an
  array length are doubles as they stand. The clamp and the buffer do no arithmetic and are
  \<open>clampToScreen\<close> and \<open>pushGaze\<close> from above.
\<close>

definition leftEyeWidth_fp :: "real Point list \<Rightarrow> jsnum" where
  "leftEyeWidth_fp ls = jabs (fsub (toDouble (x (ls ! 133))) (toDouble (x (ls ! 33))))"

definition rightEyeWidth_fp :: "real Point list \<Rightarrow> jsnum" where
  "rightEyeWidth_fp ls = jabs (fsub (toDouble (x (ls ! 263))) (toDouble (x (ls ! 362))))"

definition avgEyeWidth_fp :: "real Point list \<Rightarrow> jsnum" where
  "avgEyeWidth_fp ls = fdiv (fadd (leftEyeWidth_fp ls) (rightEyeWidth_fp ls)) (Fin 2)"

definition leftEyeHeight_fp :: "real Point list \<Rightarrow> jsnum" where
  "leftEyeHeight_fp ls = jabs (fsub (toDouble (y (ls ! 145))) (toDouble (y (ls ! 159))))"

definition rightEyeHeight_fp :: "real Point list \<Rightarrow> jsnum" where
  "rightEyeHeight_fp ls = jabs (fsub (toDouble (y (ls ! 374))) (toDouble (y (ls ! 386))))"

definition currentEyeHeight_fp :: "real Point list \<Rightarrow> jsnum" where
  "currentEyeHeight_fp ls = fdiv (fadd (leftEyeHeight_fp ls) (rightEyeHeight_fp ls)) (Fin 2)"

definition aspectRatio_fp :: "real Point list \<Rightarrow> jsnum" where
  "aspectRatio_fp ls = fdiv (currentEyeHeight_fp ls) (avgEyeWidth_fp ls)"

definition isBlinking_fp :: "real Point list \<Rightarrow> bool" where
  "isBlinking_fp ls = jlt (aspectRatio_fp ls) (toDouble 0.15)"

definition pushEyeHeight_fp :: "jsnum list \<Rightarrow> jsnum \<Rightarrow> jsnum list \<times> jsnum" where
  "pushEyeHeight_fp hist h =
     (let hist1 = hist @ [h];
          hist2 = (if length hist1 > EYE_HEIGHT_WINDOW then tl hist1 else hist1)
      in (hist2, fdiv (fsum hist2) (Fin (real (length hist2)))))"

definition normalizedGaze_fp :: "real Point list \<Rightarrow> real Point \<Rightarrow> real Point \<Rightarrow> jsnum \<times> jsnum" where
  "normalizedGaze_fp ls li ri =
     (let leftEyeCenterX = fdiv (fadd (toDouble (x (ls ! 33))) (toDouble (x (ls ! 133)))) (Fin 2);
          rightEyeCenterX = fdiv (fadd (toDouble (x (ls ! 362))) (toDouble (x (ls ! 263)))) (Fin 2);
          leftEyeCenterY = fdiv (fadd (toDouble (y (ls ! 159))) (toDouble (y (ls ! 145)))) (Fin 2);
          rightEyeCenterY = fdiv (fadd (toDouble (y (ls ! 386))) (toDouble (y (ls ! 374)))) (Fin 2);
          leftIrisOffsetX = fdiv (fsub (toDouble (x li)) leftEyeCenterX) (fdiv (leftEyeWidth_fp ls) (Fin 2));
          rightIrisOffsetX = fdiv (fsub (toDouble (x ri)) rightEyeCenterX) (fdiv (rightEyeWidth_fp ls) (Fin 2));
          leftIrisOffsetY = fdiv (fsub (toDouble (y li)) leftEyeCenterY) (fdiv (leftEyeHeight_fp ls) (Fin 2));
          rightIrisOffsetY = fdiv (fsub (toDouble (y ri)) rightEyeCenterY) (fdiv (rightEyeHeight_fp ls) (Fin 2));
          avgIrisOffsetX = fdiv (fadd leftIrisOffsetX rightIrisOffsetX) (Fin 2);
          avgIrisOffsetY = fdiv (fadd leftIrisOffsetY rightIrisOffsetY) (Fin 2)
      in (avgIrisOffsetX, avgIrisOffsetY))"

definition screenPoint_fp :: "nat \<Rightarrow> nat \<Rightarrow> LinearMatrix \<Rightarrow> jsnum \<times> jsnum \<Rightarrow> jsnum \<times> jsnum" where
  "screenPoint_fp sw sh m n =
     (let calibratedX = fadd (fmul (fst n) (scaleX m)) (offsetX m);
          calibratedY = fadd (fmul (snd n) (scaleY m)) (offsetY m);
          screenX = fmul (fmul (fadd calibratedX (Fin 1)) (Fin 0.5)) (Fin (real sw));
          screenY = fmul (fmul (fadd calibratedY (Fin 1)) (Fin 0.5)) (Fin (real sh))
      in (screenX, screenY))"

definition gazePoint_fp :: "nat \<Rightarrow> nat \<Rightarrow> LinearMatrix \<Rightarrow> real Point list \<Rightarrow> real Point \<Rightarrow> real Point \<Rightarrow> jsnum Point" where
  "gazePoint_fp sw sh m ls li ri = clampToScreen sw sh (screenPoint_fp sw sh m (normalizedGaze_fp ls li ri))"

definition smoothedX_fp :: "jsnum Point list \<Rightarrow> jsnum" where
  "smoothedX_fp hist =
     (let recentX = slice_last SMOOTHING_WINDOW_X hist
      in fdiv (fsum (map x recentX)) (Fin (real (length recentX))))"

definition smoothedY_fp :: "jsnum Point list \<Rightarrow> jsnum" where
  "smoothedY_fp hist =
     (let recentY = slice_last SMOOTHING_WINDOW_Y hist
      in fdiv (fsum (map y recentY)) (Fin (real (length recentY))))"

definition handleGazeData_fp ::
  "nat \<Rightarrow> nat \<Rightarrow> real \<Rightarrow> MediaPipeTracker \<Rightarrow> SandboxGazeData \<Rightarrow> MediaPipeTracker \<times> jsnum GazePoint list" where
  "handleGazeData_fp sw sh now t0 d =
     (let t = t0\<lparr> frameCounter := frameCounter t0 + 1 \<rparr> in
      if \<not> isRunning t then (t, [])
      else (case landmarks d of
        None \<Rightarrow> (t, [])
      | Some ls \<Rightarrow>
          if length ls < 478 then (t, [])
          else (case leftIris d of
            None \<Rightarrow> (t, [])
          | Some li \<Rightarrow>
             (case rightIris d of
                None \<Rightarrow> (t, [])
              | Some ri \<Rightarrow>
                  if isBlinking_fp ls then (t, [])
                  else
                    (let (hh, stable) = pushEyeHeight_fp (eyeHeightHistory t) (currentEyeHeight_fp ls);
                         n = normalizedGaze_fp ls li ri;
                         g = clampToScreen sw sh (screenPoint_fp sw sh (calibrationMatrix t) n);
                         gh = pushGaze (gazeHistory t) g;
                         t' = t\<lparr> eyeHeightHistory := hh, stableEyeHeight := stable, gazeHistory := gh \<rparr>
                     in if onGazeUpdate t'
                        then (t', [\<lparr> x = smoothedX_fp gh, y = smoothedY_fp gh,
                                     normalizedX = Some (fst n), normalizedY = Some (snd n),
                                     timestamp = now, confidence = 0.8 \<rparr>])
                        else (t', []))))))"

fun runFrames_fp ::
  "MediaPipeTracker \<Rightarrow> (nat \<times> nat \<times> real \<times> SandboxGazeData) list \<Rightarrow> MediaPipeTracker \<times> jsnum GazePoint list" where
  "runFrames_fp t [] = (t, [])"
| "runFrames_fp t ((sw, sh, now, d) # fs) =
     (let (t1, out1) = handleGazeData_fp sw sh now t d;
          (t2, out2) = runFrames_fp t1 fs
      in (t2, out1 @ out2))"

text \<open>The frame passes validation and the blink gate, and its clamped point under the
  matrix \<open>m\<close> is \<open>p\<close>.\<close>

definition feedsPoint_fp :: "LinearMatrix \<Rightarrow> jsnum Point \<Rightarrow> nat \<times> nat \<times> real \<times> SandboxGazeData \<Rightarrow> bool" where
  "feedsPoint_fp m p f =
     (case f of (sw, sh, now, d) \<Rightarrow>
        (case landmarks d of
           None \<Rightarrow> False
         | Some ls \<Rightarrow>
             478 \<le> length ls \<and> \<not> isBlinking_fp ls \<and>
             (case leftIris d of
                None \<Rightarrow> False
              | Some li \<Rightarrow>
                 (case rightIris d of
                    None \<Rightarrow> False
                  | Some ri \<Rightarrow> gazePoint_fp sw sh m ls li ri = p))))"

text \<open>The smoothing as the specification words it: the mean of the most recent \<open>k\<close> of the
  values \<open>vs\<close> (of all of them while there are fewer), as a sum from the left divided by
  their number.\<close>

definition windowMean :: "nat \<Rightarrow> jsnum list \<Rightarrow> jsnum" where
  "windowMean k vs = fdiv (foldl fadd (Fin 0) (drop (length vs - k) vs)) (Fin (real (min k (length vs))))"

subsection \<open>Sample frames\<close>

text \<open>
  A face whose coordinates are doubles: the left eye from x = 1/8 to x = 3/8, the right eye
  from x = 5/8 to x = 7/8, both from y = 7/16 to y = 9/16, and both irises at the centre of
  their eye. The landmarks that the estimator does not read are at (1/2, 1/2).
\<close>

definition centredLandmarks :: "real Point list" where
  "centredLandmarks =
     map (\<lambda>i. if i = 33 then \<lparr> x = 1 / 8, y = 1 / 2 \<rparr>
               else if i = 133 then \<lparr> x = 3 / 8, y = 1 / 2 \<rparr>
               else if i = 362 then \<lparr> x = 5 / 8, y = 1 / 2 \<rparr>
               else if i = 263 then \<lparr> x = 7 / 8, y = 1 / 2 \<rparr>
               else if i = 159 then \<lparr> x = 1 / 4, y = 7 / 16 \<rparr>
               else if i = 145 then \<lparr> x = 1 / 4, y = 9 / 16 \<rparr>
               else if i = 386 then \<lparr> x = 3 / 4, y = 7 / 16 \<rparr>
               else if i = 374 then \<lparr> x = 3 / 4, y = 9 / 16 \<rparr>
               else \<lparr> x = 1 / 2, y = 1 / 2 \<rparr>) [0..<478]"

definition centredFrame :: SandboxGazeData where
  "centredFrame =
     \<lparr> leftIris = Some \<lparr> x = 1 / 4, y = 1 / 2 \<rparr>,
       rightIris = Some \<lparr> x = 3 / 4, y = 1 / 2 \<rparr>,
       landmarks = Some centredLandmarks \<rparr>"

text \<open>A started tracker with the callback whose calibration has the offset
  \<open>-2\<^sup>-\<^sup>5\<^sup>2\<close> on the x axis.\<close>

definition nudgedTracker :: MediaPipeTracker where
  "nudgedTracker =
     (startedTracker True)\<lparr> calibrationMatrix :=
        \<lparr> scaleX = Fin 1, scaleY = Fin 1, offsetX = Fin (- (1 / 2 ^ 52)), offsetY = Fin 0 \<rparr> \<rparr>"

section \<open>The linear fitter in double precision\<close>

text \<open>
  \<^verbatim>\<open>applyCalibration\<close> (src/eye/MediaPipeTracker.ts, lines 260-334) with every operation
  rounded. The coordinates of a sample are read as the doubles nearest to them.
\<close>

definition normalizePoint_fp :: "nat \<Rightarrow> nat \<Rightarrow> 'z CalibrationPoint_scheme \<Rightarrow> NormalizedPoint" where
  "normalizePoint_fp sw sh p =
     \<lparr> actualN =
         \<lparr> x = fsub (fmul (fdiv (toDouble (x (actual p))) (Fin (real sw))) (Fin 2)) (Fin 1),
           y = fsub (fmul (fdiv (toDouble (y (actual p))) (Fin (real sh))) (Fin 2)) (Fin 1) \<rparr>,
       measuredN =
         \<lparr> x = (case normalizedX (measured p) of
                  Some v \<Rightarrow> toDouble v
                | None \<Rightarrow> fsub (fmul (fdiv (toDouble (x (measured p))) (Fin (real sw))) (Fin 2)) (Fin 1)),
           y = (case normalizedY (measured p) of
                  Some v \<Rightarrow> toDouble v
                | None \<Rightarrow> fsub (fmul (fdiv (toDouble (y (measured p))) (Fin (real sh))) (Fin 2)) (Fin 1)) \<rparr> \<rparr>"

definition sumCoordinates_fp :: "NormalizedPoint list \<Rightarrow> jsnum \<times> jsnum \<times> jsnum \<times> jsnum" where
  "sumCoordinates_fp nps =
     foldl (\<lambda>(meanActualX, meanActualY, meanMeasuredX, meanMeasuredY) p.
              (fadd meanActualX (x (actualN p)), fadd meanActualY (y (actualN p)),
               fadd meanMeasuredX (x (measuredN p)), fadd meanMeasuredY (y (measuredN p))))
       (Fin 0, Fin 0, Fin 0, Fin 0) nps"

definition sumProducts_fp ::
  "jsnum \<Rightarrow> jsnum \<Rightarrow> jsnum \<Rightarrow> jsnum \<Rightarrow> NormalizedPoint list \<Rightarrow> jsnum \<times> jsnum \<times> jsnum \<times> jsnum" where
  "sumProducts_fp meanActualX meanActualY meanMeasuredX meanMeasuredY nps =
     foldl (\<lambda>(numeratorX, denominatorX, numeratorY, denominatorY) p.
              (let dx = fsub (x (measuredN p)) meanMeasuredX;
                   dy = fsub (y (measuredN p)) meanMeasuredY
               in (fadd numeratorX (fmul dx (fsub (x (actualN p)) meanActualX)),
                   fadd denominatorX (fmul dx dx),
                   fadd numeratorY (fmul dy (fsub (y (actualN p)) meanActualY)),
                   fadd denominatorY (fmul dy dy))))
       (Fin 0, Fin 0, Fin 0, Fin 0) nps"

definition applyCalibration_fp ::
  "nat \<Rightarrow> nat \<Rightarrow> MediaPipeTracker \<Rightarrow> 'z CalibrationPoint_scheme list \<Rightarrow> MediaPipeTracker" where
  "applyCalibration_fp sw sh t points =
     (if length points = 0 then t
      else
        (let normalizedPoints = map (normalizePoint_fp sw sh) points;
             n = Fin (real (length normalizedPoints));
             (sumActualX, sumActualY, sumMeasuredX, sumMeasuredY) = sumCoordinates_fp normalizedPoints;
             meanActualX = fdiv sumActualX n;
             meanActualY = fdiv sumActualY n;
             meanMeasuredX = fdiv sumMeasuredX n;
             meanMeasuredY = fdiv sumMeasuredY n;
             (numeratorX, denominatorX, numeratorY, denominatorY) =
                sumProducts_fp meanActualX meanActualY meanMeasuredX meanMeasuredY normalizedPoints;
             sX = (if denominatorX \<noteq> Fin 0 then fdiv numeratorX denominatorX else Fin 1);
             sY = (if denominatorY \<noteq> Fin 0 then fdiv numeratorY denominatorY else Fin 1);
             oX = fsub meanActualX (fmul sX meanMeasuredX);
             oY = fsub meanActualY (fmul sY meanMeasuredY)
         in t\<lparr> calibrationMatrix := \<lparr> scaleX = sX, scaleY = sY, offsetX = oX, offsetY = oY \<rparr> \<rparr>))"

subsection \<open>The fit of one axis as the specification words it\<close>

text \<open>The normalized target and measurement of a sample on each axis.\<close>

definition actualNormX_fp :: "nat \<Rightarrow> 'z CalibrationPoint_scheme \<Rightarrow> jsnum" where
  "actualNormX_fp sw p = fsub (fmul (fdiv (toDouble (x (actual p))) (Fin (real sw))) (Fin 2)) (Fin 1)"

definition actualNormY_fp :: "nat \<Rightarrow> 'z CalibrationPoint_scheme \<Rightarrow> jsnum" where
  "actualNormY_fp sh p = fsub (fmul (fdiv (toDouble (y (actual p))) (Fin (real sh))) (Fin 2)) (Fin 1)"

definition measuredNormX_fp :: "nat \<Rightarrow> 'z CalibrationPoint_scheme \<Rightarrow> jsnum" where
  "measuredNormX_fp sw p =
     (case normalizedX (measured p) of
        Some v \<Rightarrow> toDouble v
      | None \<Rightarrow> fsub (fmul (fdiv (toDouble (x (measured p))) (Fin (real sw))) (Fin 2)) (Fin 1))"

definition measuredNormY_fp :: "nat \<Rightarrow> 'z CalibrationPoint_scheme \<Rightarrow> jsnum" where
  "measuredNormY_fp sh p =
     (case normalizedY (measured p) of
        Some v \<Rightarrow> toDouble v
      | None \<Rightarrow> fsub (fmul (fdiv (toDouble (y (measured p))) (Fin (real sh))) (Fin 2)) (Fin 1))"

definition mean_fp :: "jsnum list \<Rightarrow> jsnum" where
  "mean_fp vs = fdiv (foldl fadd (Fin 0) vs) (Fin (real (length vs)))"

text \<open>\<open>\<Sigma>(dm\<^sup>2)\<close> and \<open>\<Sigma>(dm\<cdot>da)\<close> over the mean-centred measured values \<open>ms\<close> and actual values
  \<open>acts\<close>, summed from the left.\<close>

definition sumDmDm_fp :: "jsnum list \<Rightarrow> jsnum" where
  "sumDmDm_fp ms = foldl fadd (Fin 0) (map (\<lambda>m. fmul (fsub m (mean_fp ms)) (fsub m (mean_fp ms))) ms)"

definition sumDmDa_fp :: "jsnum list \<Rightarrow> jsnum list \<Rightarrow> jsnum" where
  "sumDmDa_fp ms acts =
     foldl fadd (Fin 0) (map2 (\<lambda>m a. fmul (fsub m (mean_fp ms)) (fsub a (mean_fp acts))) ms acts)"

text \<open>The scale and the offset that the fitter installs for an axis.\<close>

definition axisScale_fp :: "jsnum list \<Rightarrow> jsnum list \<Rightarrow> jsnum" where
  "axisScale_fp ms acts =
     (if sumDmDm_fp ms \<noteq> Fin 0 then fdiv (sumDmDa_fp ms acts) (sumDmDm_fp ms) else Fin 1)"

definition axisOffset_fp :: "jsnum list \<Rightarrow> jsnum list \<Rightarrow> jsnum" where
  "axisOffset_fp ms acts = fsub (mean_fp acts) (fmul (axisScale_fp ms acts) (mean_fp ms))"

text \<open>A finite number of magnitude at most \<open>b\<close>; a number that is at least \<open>l\<close>, or
  \<open>+\<infinity>\<close>.\<close>

definition boundedBy :: "real \<Rightarrow> jsnum \<Rightarrow> bool" where
  "boundedBy b v = (case v of Fin q \<Rightarrow> \<bar>q\<bar> \<le> b | _ \<Rightarrow> False)"

definition notBelow :: "real \<Rightarrow> jsnum \<Rightarrow> bool" where
  "notBelow l v = (case v of Fin q \<Rightarrow> l \<le> q | PInf \<Rightarrow> True | _ \<Rightarrow> False)"

text \<open>Every coordinate of the sample has a magnitude of at most \<open>2\<^sup>1\<^sup>0\<^sup>0\<close>.\<close>

definition boundedSample :: "'z CalibrationPoint_scheme \<Rightarrow> bool" where
  "boundedSample p =
     (\<bar>x (actual p)\<bar> \<le> 2 ^ 100 \<and> \<bar>y (actual p)\<bar> \<le> 2 ^ 100
      \<and> \<bar>x (measured p)\<bar> \<le> 2 ^ 100 \<and> \<bar>y (measured p)\<bar> \<le> 2 ^ 100
      \<and> (case normalizedX (measured p) of None \<Rightarrow> True | Some v \<Rightarrow> \<bar>v\<bar> \<le> 2 ^ 100)
      \<and> (case normalizedY (measured p) of None \<Rightarrow> True | Some v \<Rightarrow> \<bar>v\<bar> \<le> 2 ^ 100))"

text \<open>The double nearest to 0.1, and three samples that were all measured there, with the
  targets at the left edge, the centre and the right edge of the middle row of a 1920 by
  1080 screen.\<close>

definition tenth :: real where
  "tenth = 3602879701896397 / 2 ^ 55"

definition stuckSamples :: "CalibrationPoint list" where
  "stuckSamples =
     [sample 0 540 tenth tenth, sample 960 540 tenth tenth, sample 1920 540 tenth tenth]"

section \<open>Facts about the numbers\<close>

lemma jge_not_jlt: "jge a b \<Longrightarrow> \<not> jlt a b"
  by (simp add: jge_def)

section \<open>Facts about the sample frames\<close>

lemma exampleLandmarks_length: "length (exampleLandmarks h) = 478"
  by (simp add: exampleLandmarks_def)

lemma exampleLandmarks_aspectRatio: "aspectRatio (exampleLandmarks h) = Fin (\<bar>h\<bar> / 0.2)"
  by (simp add: aspectRatio_def currentEyeHeight_def avgEyeWidth_def leftEyeWidth_def
      rightEyeWidth_def leftEyeHeight_def rightEyeHeight_def exampleLandmarks_def jsub_def)

lemma exampleFrame_valid: "frameValid (exampleFrame h gx gy)"
  by (simp add: frameValid_def exampleFrame_def exampleLandmarks_length)

lemma exampleFrame_normalizedGaze:
  "0 < h \<Longrightarrow>
   normalizedGaze (exampleLandmarks h)
     \<lparr> x = 0.3 + 0.1 * gx, y = 0.45 + (h / 2) * gy \<rparr>
     \<lparr> x = 0.7 + 0.1 * gx, y = 0.45 + (h / 2) * gy \<rparr> = (Fin gx, Fin gy)"
  by (simp add: normalizedGaze_def leftEyeWidth_def rightEyeWidth_def
      leftEyeHeight_def rightEyeHeight_def exampleLandmarks_def jsub_def Let_def)

section \<open>Emission and dropped frames\<close>

lemma handleGazeData_dropped:
  assumes "\<not> frameValid d \<or> (\<exists>ls. landmarks d = Some ls \<and> isBlinking ls)"
  shows "snd (handleGazeData sw sh now t d) = []
       \<and> gazeHistory (fst (handleGazeData sw sh now t d)) = gazeHistory t
       \<and> eyeHeightHistory (fst (handleGazeData sw sh now t d)) = eyeHeightHistory t"
  using assms
  by (auto simp: handleGazeData_def frameValid_def Let_def split: option.splits)

lemma handleGazeData_passed:
  assumes "isRunning t" "frameValid d" "landmarks d = Some ls" "\<not> isBlinking ls"
  shows "length (snd (handleGazeData sw sh now t d)) = (if onGazeUpdate t then 1 else 0)"
  using assms
  by (auto simp: handleGazeData_def frameValid_def Let_def split: option.splits prod.splits)

text \<open>
  C1 (as amended). A running estimator whose configuration has an \<^verbatim>\<open>onGazeUpdate\<close>
  callback hands exactly one gaze point to it for a frame with at least 478 landmarks, both
  iris points and an eye aspect ratio of at least 0.15. A frame with fewer than 478
  landmarks (or none), a missing iris point or an aspect ratio below 0.15 yields no gaze
  point and leaves \<^verbatim>\<open>gazeHistory\<close> and \<^verbatim>\<open>eyeHeightHistory\<close> as they were.
\<close>

theorem handleGazeData_emits_one_or_drops:
  assumes "isRunning t" and "onGazeUpdate t"
  shows "(frameValid d \<and> landmarks d = Some ls \<and> jge (aspectRatio ls) (Fin 0.15)
            \<longrightarrow> length (snd (handleGazeData sw sh now t d)) = 1)
       \<and> ((\<not> frameValid d \<or> (landmarks d = Some ls \<and> jlt (aspectRatio ls) (Fin 0.15)))
            \<longrightarrow> snd (handleGazeData sw sh now t d) = []
                \<and> gazeHistory (fst (handleGazeData sw sh now t d)) = gazeHistory t
                \<and> eyeHeightHistory (fst (handleGazeData sw sh now t d)) = eyeHeightHistory t)"
proof (intro conjI impI)
  assume a: "frameValid d \<and> landmarks d = Some ls \<and> jge (aspectRatio ls) (Fin 0.15)"
  then have "\<not> isBlinking ls"
    by (simp add: isBlinking_def jge_not_jlt)
  with a assms show "length (snd (handleGazeData sw sh now t d)) = 1"
    by (simp add: handleGazeData_passed)
next
  assume "\<not> frameValid d \<or> (landmarks d = Some ls \<and> jlt (aspectRatio ls) (Fin 0.15))"
  then have b: "\<not> frameValid d \<or> (\<exists>ls. landmarks d = Some ls \<and> isBlinking ls)"
    by (auto simp: isBlinking_def)
  show "snd (handleGazeData sw sh now t d) = []"
    using handleGazeData_dropped [OF b] by simp
  show "gazeHistory (fst (handleGazeData sw sh now t d)) = gazeHistory t"
    using handleGazeData_dropped [OF b] by simp
  show "eyeHeightHistory (fst (handleGazeData sw sh now t d)) = eyeHeightHistory t"
    using handleGazeData_dropped [OF b] by simp
qed

text \<open>The theorem at an open eye (aspect ratio 0.5) and at a blink (aspect ratio 0.05).\<close>

theorem handleGazeData_emits_one_or_drops_witness:
  "length (snd (handleGazeData 1920 1080 0 (startedTracker True) (exampleFrame 0.1 0 0))) = 1
   \<and> snd (handleGazeData 1920 1080 0 (startedTracker True) (exampleFrame 0.01 0 0)) = []
   \<and> gazeHistory (fst (handleGazeData 1920 1080 0 (startedTracker True) (exampleFrame 0.01 0 0))) = []"
proof -
  have r: "isRunning (startedTracker True)" and c: "onGazeUpdate (startedTracker True)"
    by (simp_all add: startedTracker_def newTracker_def)
  have v: "frameValid (exampleFrame h 0 0)" for h
    by (rule exampleFrame_valid)
  have l: "landmarks (exampleFrame h 0 0) = Some (exampleLandmarks h)" for h
    by (simp add: exampleFrame_def)
  have g: "jge (aspectRatio (exampleLandmarks 0.1)) (Fin 0.15)"
    by (simp add: exampleLandmarks_aspectRatio jge_def)
  have b: "jlt (aspectRatio (exampleLandmarks 0.01)) (Fin 0.15)"
    by (simp add: exampleLandmarks_aspectRatio)
  have h0: "gazeHistory (startedTracker True) = []"
    by (simp add: startedTracker_def newTracker_def)
  from handleGazeData_emits_one_or_drops [OF r c, of "exampleFrame 0.1 0 0" "exampleLandmarks 0.1" 1920 1080 0]
       handleGazeData_emits_one_or_drops [OF r c, of "exampleFrame 0.01 0 0" "exampleLandmarks 0.01" 1920 1080 0]
  show ?thesis
    using v l g b h0 by simp
qed

text \<open>
  The claim as it is written does not hold for every running estimator: the callback is
  optional, and without it a frame that passes every gate updates the buffers and hands
  out nothing.
\<close>

theorem handleGazeData_no_callback_counterexample:
  "isRunning (startedTracker False)
   \<and> frameValid (exampleFrame 0.1 0 0)
   \<and> landmarks (exampleFrame 0.1 0 0) = Some (exampleLandmarks 0.1)
   \<and> jge (aspectRatio (exampleLandmarks 0.1)) (Fin 0.15)
   \<and> snd (handleGazeData 1920 1080 0 (startedTracker False) (exampleFrame 0.1 0 0)) = []"
proof -
  have r: "isRunning (startedTracker False)" and c: "\<not> onGazeUpdate (startedTracker False)"
    by (simp_all add: startedTracker_def newTracker_def)
  have l: "landmarks (exampleFrame 0.1 0 0) = Some (exampleLandmarks 0.1)"
    by (simp add: exampleFrame_def)
  have g: "jge (aspectRatio (exampleLandmarks 0.1)) (Fin 0.15)"
    by (simp add: exampleLandmarks_aspectRatio jge_def)
  then have nb: "\<not> isBlinking (exampleLandmarks 0.1)"
    by (simp add: isBlinking_def jge_not_jlt)
  have "length (snd (handleGazeData 1920 1080 0 (startedTracker False) (exampleFrame 0.1 0 0))) = 0"
    using handleGazeData_passed [OF r exampleFrame_valid l nb] c by simp
  then show ?thesis
    using r l g exampleFrame_valid by simp
qed

section \<open>The smoothing buffer\<close>

lemma handleGazeData_keeps:
  "isRunning (fst (handleGazeData sw sh now t d)) = isRunning t"
  "onGazeUpdate (fst (handleGazeData sw sh now t d)) = onGazeUpdate t"
  "calibrationMatrix (fst (handleGazeData sw sh now t d)) = calibrationMatrix t"
  by (auto simp: handleGazeData_def Let_def split: option.splits prod.splits)

lemma handleGazeData_feeds:
  assumes "isRunning t" and "feedsPoint (calibrationMatrix t) p (sw, sh, now, d)"
  shows "gazeHistory (fst (handleGazeData sw sh now t d)) = pushGaze (gazeHistory t) p"
    and "onGazeUpdate t \<Longrightarrow>
           \<exists>g. snd (handleGazeData sw sh now t d) = [g]
              \<and> x g = smoothedX (pushGaze (gazeHistory t) p)
              \<and> y g = smoothedY (pushGaze (gazeHistory t) p)"
  using assms
  by (auto simp: handleGazeData_def feedsPoint_def gazePoint_def Let_def split: option.splits prod.splits)

lemma runFrames_Cons_snd:
  "snd (runFrames t ((sw, sh, now, d) # fs)) =
     snd (handleGazeData sw sh now t d) @ snd (runFrames (fst (handleGazeData sw sh now t d)) fs)"
  by (simp add: Let_def case_prod_beta)

lemma exampleFrame_feeds:
  assumes "0.03 \<le> h"
  shows "feedsPoint m (clampToScreen sw sh (screenPoint sw sh m (Fin gx, Fin gy)))
           (sw, sh, now, exampleFrame h gx gy)"
proof -
  have "0 < h" using assms by simp
  then have n: "normalizedGaze (exampleLandmarks h)
     \<lparr> x = 0.3 + 0.1 * gx, y = 0.45 + (h / 2) * gy \<rparr>
     \<lparr> x = 0.7 + 0.1 * gx, y = 0.45 + (h / 2) * gy \<rparr> = (Fin gx, Fin gy)"
    by (rule exampleFrame_normalizedGaze)
  have nb: "\<not> isBlinking (exampleLandmarks h)"
    using assms by (simp add: isBlinking_def exampleLandmarks_aspectRatio)
  show ?thesis
    using n nb
    by (simp add: feedsPoint_def exampleFrame_def exampleLandmarks_length gazePoint_def)
qed

section \<open>Screen bounds of the emitted points\<close>

lemma clampToScreen_inBounds:
  assumes "fst s \<noteq> NaN" and "snd s \<noteq> NaN"
  shows "inBounds sw sh (clampToScreen sw sh s)"
  using assms
  by (cases "fst s"; cases "snd s")
     (auto simp: inBounds_def clampToScreen_def jmax_def jmin_def)

lemma foldl_jadd_bounded:
  assumes "\<forall>v \<in> set vs. \<exists>r. v = Fin r \<and> 0 \<le> r \<and> r \<le> w"
  shows "\<exists>s. foldl jadd (Fin a) vs = Fin s \<and> a \<le> s \<and> s \<le> a + real (length vs) * w"
  using assms
proof (induction vs arbitrary: a)
  case Nil
  show ?case by simp
next
  case (Cons v vs)
  then obtain r where v: "v = Fin r" and r: "0 \<le> r" "r \<le> w"
    by auto
  from Cons.IH [of "a + r"] Cons.prems
  obtain s where s: "foldl jadd (Fin (a + r)) vs = Fin s" "a + r \<le> s" "s \<le> a + r + real (length vs) * w"
    by auto
  show ?case
    using s r by (intro exI [of _ s]) (simp add: v algebra_simps)
qed

lemma mean_bounded:
  assumes "vs \<noteq> []" and "\<forall>v \<in> set vs. \<exists>r. v = Fin r \<and> 0 \<le> r \<and> r \<le> w"
  shows "\<exists>m. jdiv (jsum vs) (Fin (real (length vs))) = Fin m \<and> 0 \<le> m \<and> m \<le> w"
proof -
  obtain s where s: "foldl jadd (Fin 0) vs = Fin s" "0 \<le> s" "s \<le> 0 + real (length vs) * w"
    using foldl_jadd_bounded [OF assms(2), of 0] by blast
  have n: "0 < real (length vs)"
    using assms(1) by simp
  have "s / real (length vs) \<le> w"
    using s(3) n by (simp add: pos_divide_le_eq mult.commute)
  moreover have "0 \<le> s / real (length vs)"
    using s(2) by simp
  ultimately show ?thesis
    using s(1) n by (simp add: jsum_def)
qed

lemma slice_last_nonempty: "0 < k \<Longrightarrow> hist \<noteq> [] \<Longrightarrow> slice_last k hist \<noteq> []"
  by (cases hist) (auto simp: slice_last_def)

lemma set_slice_last: "set (slice_last k hist) \<subseteq> set hist"
  by (simp add: slice_last_def set_drop_subset)

lemma pushGaze_nonempty: "pushGaze hist p \<noteq> []"
  by (cases hist) (auto simp: pushGaze_def Let_def SMOOTHING_WINDOW_X_def SMOOTHING_WINDOW_Y_def)

lemma set_pushGaze: "set (pushGaze hist p) \<subseteq> insert p (set hist)"
proof -
  have "set (tl (hist @ [p])) \<subseteq> set (hist @ [p])"
    by (cases "hist @ [p]") auto
  then show ?thesis
    by (auto simp: pushGaze_def Let_def)
qed

lemma inBoundsD:
  assumes "inBounds sw sh p"
  shows "\<exists>gx gy. x p = Fin gx \<and> y p = Fin gy \<and> 0 \<le> gx \<and> gx \<le> real sw \<and> 0 \<le> gy \<and> gy \<le> real sh"
  using assms by (cases "x p"; cases "y p") (simp_all add: inBounds_def)

lemma inBoundsI:
  assumes "x p = Fin gx" "y p = Fin gy" "0 \<le> gx" "gx \<le> real sw" "0 \<le> gy" "gy \<le> real sh"
  shows "inBounds sw sh p"
  using assms by (simp add: inBounds_def)

lemma smoothed_inBounds:
  assumes "hist \<noteq> []" and "\<forall>p \<in> set hist. inBounds sw sh p"
  shows "\<exists>mx my. smoothedX hist = Fin mx \<and> smoothedY hist = Fin my
           \<and> 0 \<le> mx \<and> mx \<le> real sw \<and> 0 \<le> my \<and> my \<le> real sh"
proof -
  have bx: "\<forall>v \<in> set (map x (slice_last 8 hist)). \<exists>r. v = Fin r \<and> 0 \<le> r \<and> r \<le> real sw"
  proof
    fix v assume "v \<in> set (map x (slice_last 8 hist))"
    then obtain p where "p \<in> set hist" "v = x p"
      using set_slice_last [of 8 hist] by auto
    then show "\<exists>r. v = Fin r \<and> 0 \<le> r \<and> r \<le> real sw"
      using inBoundsD [of sw sh p] assms(2) by auto
  qed
  have by': "\<forall>v \<in> set (map y (slice_last 4 hist)). \<exists>r. v = Fin r \<and> 0 \<le> r \<and> r \<le> real sh"
  proof
    fix v assume "v \<in> set (map y (slice_last 4 hist))"
    then obtain p where "p \<in> set hist" "v = y p"
      using set_slice_last [of 4 hist] by auto
    then show "\<exists>r. v = Fin r \<and> 0 \<le> r \<and> r \<le> real sh"
      using inBoundsD [of sw sh p] assms(2) by auto
  qed
  have nx: "map x (slice_last 8 hist) \<noteq> []" and ny: "map y (slice_last 4 hist) \<noteq> []"
    using assms(1) by (simp_all add: slice_last_nonempty)
  from mean_bounded [OF nx bx] mean_bounded [OF ny by']
  show ?thesis
    by (auto simp: smoothedX_def smoothedY_def Let_def SMOOTHING_WINDOW_X_def SMOOTHING_WINDOW_Y_def)
qed

lemma handleGazeData_cases:
  "(snd (handleGazeData sw sh now t d) = []
      \<and> gazeHistory (fst (handleGazeData sw sh now t d)) = gazeHistory t)
   \<or> (\<exists>ls li ri. landmarks d = Some ls \<and> leftIris d = Some li \<and> rightIris d = Some ri
         \<and> \<not> length ls < 478 \<and> \<not> isBlinking ls
         \<and> gazeHistory (fst (handleGazeData sw sh now t d))
             = pushGaze (gazeHistory t) (gazePoint sw sh (calibrationMatrix t) ls li ri)
         \<and> (snd (handleGazeData sw sh now t d) = []
            \<or> (\<exists>g. snd (handleGazeData sw sh now t d) = [g]
                  \<and> x g = smoothedX (gazeHistory (fst (handleGazeData sw sh now t d)))
                  \<and> y g = smoothedY (gazeHistory (fst (handleGazeData sw sh now t d))))))"
  by (auto simp: handleGazeData_def gazePoint_def Let_def split: option.splits prod.splits)

lemma handleGazeData_steady:
  assumes "\<forall>p \<in> set (gazeHistory t). inBounds sw sh p"
      and "steadyFrame sw sh (calibrationMatrix t) (sw', sh', now, d)"
  shows "(\<forall>p \<in> set (gazeHistory (fst (handleGazeData sw' sh' now t d))). inBounds sw sh p)
       \<and> (\<forall>g \<in> set (snd (handleGazeData sw' sh' now t d)). inBounds sw sh g)"
proof -
  have eq: "sw' = sw" "sh' = sh"
    using assms(2) by (simp_all add: steadyFrame_def)
  let ?r = "handleGazeData sw sh now t d"
  consider
    (dropped) "snd ?r = []" "gazeHistory (fst ?r) = gazeHistory t"
  | (passed) ls li ri where "landmarks d = Some ls" "leftIris d = Some li" "rightIris d = Some ri"
      "\<not> length ls < 478" "\<not> isBlinking ls"
      "gazeHistory (fst ?r) = pushGaze (gazeHistory t) (gazePoint sw sh (calibrationMatrix t) ls li ri)"
      "snd ?r = [] \<or> (\<exists>g. snd ?r = [g] \<and> x g = smoothedX (gazeHistory (fst ?r))
                          \<and> y g = smoothedY (gazeHistory (fst ?r)))"
    using handleGazeData_cases [of sw sh now t d] by blast
  then have "(\<forall>p \<in> set (gazeHistory (fst ?r)). inBounds sw sh p) \<and> (\<forall>g \<in> set (snd ?r). inBounds sw sh g)"
  proof cases
    case dropped
    then show ?thesis using assms(1) by simp
  next
    case passed
    let ?s = "screenPoint sw sh (calibrationMatrix t) (normalizedGaze ls li ri)"
    have "fst ?s \<noteq> NaN" "snd ?s \<noteq> NaN"
      using assms(2) passed(1-5) by (simp_all add: steadyFrame_def)
    then have "inBounds sw sh (gazePoint sw sh (calibrationMatrix t) ls li ri)"
      unfolding gazePoint_def by (rule clampToScreen_inBounds)
    then have h: "\<forall>p \<in> set (gazeHistory (fst ?r)). inBounds sw sh p"
      using assms(1) passed(6) set_pushGaze [of "gazeHistory t" "gazePoint sw sh (calibrationMatrix t) ls li ri"]
      by auto
    have ne: "gazeHistory (fst ?r) \<noteq> []"
      using passed(6) by (simp add: pushGaze_nonempty)
    have "\<forall>g \<in> set (snd ?r). inBounds sw sh g"
      using passed(7) smoothed_inBounds [OF ne h] by (auto intro: inBoundsI)
    with h show ?thesis by simp
  qed
  then show ?thesis by (simp add: eq)
qed

text \<open>
  C9 (as amended). Let every frame of a sequence be processed under one viewport
  \<open>sw \<times> sh\<close>, let the buffered points at the start lie in \<open>[0, sw] \<times> [0, sh]\<close> (a new
  tracker's buffer is empty), and let no frame that passes the gates have a NaN screen
  coordinate. Then every emitted gaze point has finite coordinates with \<open>0 \<le> x \<le> sw\<close> and
  \<open>0 \<le> y \<le> sh\<close>, whatever the calibration matrix is.
\<close>

theorem emitted_in_bounds:
  assumes "\<forall>p \<in> set (gazeHistory t). inBounds sw sh p"
      and "\<forall>f \<in> set fs. steadyFrame sw sh (calibrationMatrix t) f"
  shows "\<forall>g \<in> set (snd (runFrames t fs)). inBounds sw sh g"
  using assms
proof (induction fs arbitrary: t)
  case Nil
  show ?case by simp
next
  case (Cons f fs)
  obtain sw' sh' now d where f: "f = (sw', sh', now, d)" by (cases f) auto
  let ?t1 = "fst (handleGazeData sw' sh' now t d)"
  have st: "steadyFrame sw sh (calibrationMatrix t) (sw', sh', now, d)"
    using Cons.prems(2) f by simp
  have m1: "calibrationMatrix ?t1 = calibrationMatrix t"
    by (rule handleGazeData_keeps)
  have "\<forall>g \<in> set (snd (runFrames ?t1 fs)). inBounds sw sh g"
    using Cons.IH [of ?t1] handleGazeData_steady [OF Cons.prems(1) st] Cons.prems(2) m1 by simp
  then show ?case
    using handleGazeData_steady [OF Cons.prems(1) st]
    by (auto simp: f runFrames_Cons_snd simp del: runFrames.simps(2))
qed

text \<open>A frame whose eyes have non-zero widths and heights has a finite screen point under a
  finite matrix, so it meets the condition of the theorem.\<close>

lemma nondegenerate_screenPoint_finite:
  assumes "scaleX m = Fin a" "scaleY m = Fin b" "offsetX m = Fin c" "offsetY m = Fin e"
      and "x (ls ! 133) \<noteq> x (ls ! 33)" "x (ls ! 263) \<noteq> x (ls ! 362)"
      and "y (ls ! 145) \<noteq> y (ls ! 159)" "y (ls ! 374) \<noteq> y (ls ! 386)"
  shows "isFinite (fst (screenPoint sw sh m (normalizedGaze ls li ri)))
       \<and> isFinite (snd (screenPoint sw sh m (normalizedGaze ls li ri)))"
  using assms
  by (simp add: screenPoint_def normalizedGaze_def leftEyeWidth_def rightEyeWidth_def
      leftEyeHeight_def rightEyeHeight_def jsub_def Let_def)

lemma exampleFrame_steady:
  assumes "0 < h"
  shows "steadyFrame sw sh (calibrationMatrix (startedTracker cb)) (sw, sh, now, exampleFrame h gx gy)"
  using exampleFrame_normalizedGaze [OF assms, of gx gy]
  by (simp add: steadyFrame_def exampleFrame_def screenPoint_def startedTracker_def newTracker_def)

lemma startedTracker_fields:
  "isRunning (startedTracker cb)" "onGazeUpdate (startedTracker cb) = cb"
  "gazeHistory (startedTracker cb) = []"
  "calibrationMatrix (startedTracker cb) = \<lparr> scaleX = Fin 1, scaleY = Fin 1, offsetX = Fin 0, offsetY = Fin 0 \<rparr>"
  by (simp_all add: startedTracker_def newTracker_def)

text \<open>Two frames under a 1920 by 1080 viewport: looking at the right edge, then at the
  centre.\<close>

theorem emitted_in_bounds_witness:
  "snd (runFrames (startedTracker True)
          [(1920, 1080, 0, exampleFrame 0.1 1 0), (1920, 1080, 1, exampleFrame 0.1 0 0)]) \<noteq> []
   \<and> list_all (inBounds 1920 1080)
        (snd (runFrames (startedTracker True)
          [(1920, 1080, 0, exampleFrame 0.1 1 0), (1920, 1080, 1, exampleFrame 0.1 0 0)]))"
proof -
  let ?fs = "[(1920, 1080, 0, exampleFrame 0.1 1 0), (1920, 1080, 1, exampleFrame 0.1 0 0)]"
  have h: "\<forall>p \<in> set (gazeHistory (startedTracker True)). inBounds 1920 1080 p"
    by (simp add: startedTracker_fields)
  have s: "\<forall>f \<in> set ?fs. steadyFrame 1920 1080 (calibrationMatrix (startedTracker True)) f"
    using exampleFrame_steady [where h = "0.1" and sw = 1920 and sh = 1080 and cb = True] by simp
  have l: "landmarks (exampleFrame 0.1 1 0) = Some (exampleLandmarks 0.1)"
    by (simp add: exampleFrame_def)
  have nb: "\<not> isBlinking (exampleLandmarks 0.1)"
    by (simp add: isBlinking_def exampleLandmarks_aspectRatio)
  have "length (snd (handleGazeData 1920 1080 0 (startedTracker True) (exampleFrame 0.1 1 0))) = 1"
    using handleGazeData_passed [where t = "startedTracker True" and d = "exampleFrame 0.1 1 0"
        and ls = "exampleLandmarks 0.1" and sw = 1920 and sh = 1080 and now = 0]
      l nb exampleFrame_valid
    by (simp add: startedTracker_fields)
  then have ne: "snd (runFrames (startedTracker True) ?fs) \<noteq> []"
    by (auto simp: runFrames_Cons_snd simp del: runFrames.simps(2))
  show ?thesis
    using emitted_in_bounds [OF h s] ne by (simp add: list_all_iff del: runFrames.simps(2))
qed

lemma right_edge_point:
  "clampToScreen sw sh (screenPoint sw sh (calibrationMatrix (startedTracker cb)) (Fin 1, Fin 0))
     = \<lparr> x = Fin (real sw), y = Fin (real sh / 2) \<rparr>"
  by (simp add: clampToScreen_def screenPoint_def startedTracker_fields jmax_def jmin_def)

text \<open>
  The claim as it is written quantifies over every sequence of frames. The viewport is read
  anew at each frame, and the buffer keeps the points clamped to the earlier viewport: a
  gaze at the right edge of a 1920 wide viewport, followed by the same gaze after the
  viewport has shrunk to 800 by 600, emits x = (1920 + 800) / 2 = 1360, which is beyond 800.
\<close>

theorem emitted_after_resize_counterexample:
  "snd (runFrames (startedTracker True)
          [(1920, 1080, 0, exampleFrame 0.1 1 0), (800, 600, 1, exampleFrame 0.1 1 0)]) \<noteq> []
   \<and> x (last (snd (runFrames (startedTracker True)
          [(1920, 1080, 0, exampleFrame 0.1 1 0), (800, 600, 1, exampleFrame 0.1 1 0)]))) = Fin 1360
   \<and> \<not> inBounds 800 600 (last (snd (runFrames (startedTracker True)
          [(1920, 1080, 0, exampleFrame 0.1 1 0), (800, 600, 1, exampleFrame 0.1 1 0)])))"
proof -
  let ?t0 = "startedTracker True"
  let ?d = "exampleFrame 0.1 1 0"
  let ?p1 = "\<lparr> x = Fin 1920, y = Fin 540 \<rparr>"
  let ?p2 = "\<lparr> x = Fin 800, y = Fin 300 \<rparr>"
  let ?t1 = "fst (handleGazeData 1920 1080 0 ?t0 ?d)"
  have f1: "feedsPoint (calibrationMatrix ?t0) ?p1 (1920, 1080, 0, ?d)"
    using exampleFrame_feeds [where h = "0.1" and m = "calibrationMatrix ?t0" and sw = 1920 and sh = 1080
        and gx = 1 and gy = 0 and now = 0]
    by (simp add: right_edge_point)
  have h1: "gazeHistory ?t1 = [?p1]"
    using handleGazeData_feeds(1) [OF startedTracker_fields(1) f1]
    by (simp add: startedTracker_fields pushGaze_def SMOOTHING_WINDOW_X_def SMOOTHING_WINDOW_Y_def)
  have k1: "isRunning ?t1" "onGazeUpdate ?t1" "calibrationMatrix ?t1 = calibrationMatrix ?t0"
    by (simp_all add: handleGazeData_keeps startedTracker_fields)
  have f2: "feedsPoint (calibrationMatrix ?t1) ?p2 (800, 600, 1, ?d)"
    using exampleFrame_feeds [where h = "0.1" and m = "calibrationMatrix ?t0" and sw = 800 and sh = 600
        and gx = 1 and gy = 0 and now = 1]
    by (simp add: right_edge_point k1)
  obtain g where g: "snd (handleGazeData 800 600 1 ?t1 ?d) = [g]"
      "x g = smoothedX (pushGaze (gazeHistory ?t1) ?p2)"
    using handleGazeData_feeds(2) [OF k1(1) f2 k1(2)] by blast
  have "smoothedX (pushGaze [?p1] ?p2) = Fin 1360"
    by (simp add: pushGaze_def smoothedX_def slice_last_def jsum_def
        SMOOTHING_WINDOW_X_def SMOOTHING_WINDOW_Y_def)
  then have xg: "x g = Fin 1360"
    using g(2) h1 by simp
  then have "\<not> inBounds 800 600 g"
    by (simp add: inBounds_def split: jsnum.splits)
  then show ?thesis
    using g(1) xg by (simp add: runFrames_Cons_snd del: runFrames.simps(2))
qed

text \<open>Why the theorem excludes NaN: a frame that passes every gate (aspect ratio 1) but has a
  left eye of width 0 with the iris at its centre computes 0 / 0; the clamp keeps NaN, and
  the emitted x is NaN.\<close>

lemma zero_width_eye_emits_NaN:
  "frameValid zeroWidthFrame
   \<and> aspectRatio ((exampleLandmarks 0.1)[133 := \<lparr> x = 0.2, y = 0.45 \<rparr>]) = Fin 1
   \<and> map x (snd (handleGazeData 1920 1080 0 (startedTracker True) zeroWidthFrame)) = [NaN]"
proof -
  let ?ls = "(exampleLandmarks 0.1)[133 := \<lparr> x = 0.2, y = 0.45 \<rparr>]"
  have v: "frameValid zeroWidthFrame"
    by (simp add: frameValid_def zeroWidthFrame_def exampleLandmarks_length)
  have a: "aspectRatio ?ls = Fin 1"
    by (simp add: aspectRatio_def currentEyeHeight_def avgEyeWidth_def leftEyeWidth_def
      rightEyeWidth_def leftEyeHeight_def rightEyeHeight_def exampleLandmarks_def jsub_def)
  have n: "fst (normalizedGaze ?ls \<lparr> x = 0.2, y = 0.45 \<rparr> \<lparr> x = 0.7, y = 0.45 \<rparr>) = NaN"
    by (simp add: normalizedGaze_def leftEyeWidth_def rightEyeWidth_def
      leftEyeHeight_def rightEyeHeight_def exampleLandmarks_def jsub_def Let_def)
  have g: "x (gazePoint 1920 1080 (calibrationMatrix (startedTracker True)) ?ls
              \<lparr> x = 0.2, y = 0.45 \<rparr> \<lparr> x = 0.7, y = 0.45 \<rparr>) = NaN"
    using n by (simp add: gazePoint_def clampToScreen_def screenPoint_def jmax_def jmin_def
        startedTracker_fields Let_def)
  have "map x (snd (handleGazeData 1920 1080 0 (startedTracker True) zeroWidthFrame)) = [NaN]"
    using a g
    by (simp add: handleGazeData_def zeroWidthFrame_def exampleLandmarks_length isBlinking_def
        startedTracker_fields gazePoint_def pushGaze_def smoothedX_def slice_last_def jsum_def
        SMOOTHING_WINDOW_X_def SMOOTHING_WINDOW_Y_def Let_def split: prod.splits)
  with v a show ?thesis by simp
qed

section \<open>The linear fit\<close>















section \<open>The affine fit and the default transform\<close>

lemma useDefaultCalibration_fields:
  "affineMatrix (useDefaultCalibration sw sh t) =
     \<lparr> m_a = real sw / 0.6, m_b = 0, m_c = 0, m_d = real sh / 0.6, tx = real sw / 2, ty = real sh / 2 \<rparr>"
  "isCalibrated (useDefaultCalibration sw sh t)"
  by (simp_all add: useDefaultCalibration_def)

text \<open>What survives the outlier filter: the samples without a deviation and those with a
  deviation below 50.\<close>

lemma goodPoints_keeps:
  "p \<in> set (goodPoints points) \<longleftrightarrow>
     p \<in> set points \<and> (stdDev p = None \<or> (\<exists>s. stdDev p = Some s \<and> s < 50))"
  by (auto simp: goodPoints_def isGood_def MAX_STDDEV_def split: option.splits)

text \<open>
  C3. For a non-empty list of samples: if fewer than 4 samples pass the outlier filter, or
  the determinant of the normal equations is below \<open>10\<^sup>-\<^sup>1\<^sup>0\<close> in absolute value, or the
  effective scale of the fitted matrix (\<open>sqrt(a\<^sup>2 + c\<^sup>2)\<close> for X, \<open>|d|\<close> for Y) is above 3 times
  or below 0.2 times \<open>screenWidth / 0.6\<close>, then the affine fitter returns the tracker that
  \<^verbatim>\<open>useDefaultCalibration\<close> yields: the default matrix, flagged as calibrated. The
  function is total: no input makes it fail.
\<close>

theorem applyCalibrationAffine_falls_back:
  assumes "points \<noteq> []"
      and "length (goodPoints points) < 4
           \<or> \<bar>fitDeterminant points\<bar> < 1 / 10 ^ 10
           \<or> effectiveScaleX (fittedMatrix points) > MAX_SCALE sw
           \<or> effectiveScaleX (fittedMatrix points) < MIN_SCALE sw
           \<or> primaryScaleY (fittedMatrix points) > MAX_SCALE sw
           \<or> primaryScaleY (fittedMatrix points) < MIN_SCALE sw"
  shows "applyCalibrationAffine sw sh t points = useDefaultCalibration sw sh t
       \<and> affineMatrix (applyCalibrationAffine sw sh t points) =
           \<lparr> m_a = real sw / 0.6, m_b = 0, m_c = 0, m_d = real sh / 0.6,
             tx = real sw / 2, ty = real sh / 2 \<rparr>
       \<and> isCalibrated (applyCalibrationAffine sw sh t points)
       \<and> MAX_SCALE sw = 3 * (real sw / 0.6) \<and> MIN_SCALE sw = 0.2 * (real sw / 0.6)"
proof -
  have "applyCalibrationAffine sw sh t points = useDefaultCalibration sw sh t"
    using assms
    by (auto simp: applyCalibrationAffine_def fitDeterminant_def fittedMatrix_def Let_def)
  then show ?thesis
    by (simp add: useDefaultCalibration_fields MAX_SCALE_def MIN_SCALE_def expectedScale_def)
qed

text \<open>Four samples of which one has a deviation of 80: three pass the filter.\<close>

theorem applyCalibrationAffine_falls_back_witness:
  "applyCalibrationAffine 1920 1080 newAffineTracker
     [qualitySample 288 162 (- 0.2) (- 0.2) 12, qualitySample 960 162 0 (- 0.2) 80,
      qualitySample 1632 162 0.2 (- 0.2) 9, qualitySample 288 540 (- 0.2) 0 20]
   = \<lparr> affineMatrix = \<lparr> m_a = 3200, m_b = 0, m_c = 0, m_d = 1800, tx = 960, ty = 540 \<rparr>,
       isCalibrated = True \<rparr>"
proof -
  let ?ps = "[qualitySample 288 162 (- 0.2) (- 0.2) 12, qualitySample 960 162 0 (- 0.2) 80,
      qualitySample 1632 162 0.2 (- 0.2) 9, qualitySample 288 540 (- 0.2) 0 20]"
  have "length (goodPoints ?ps) < 4"
    by (simp add: goodPoints_def isGood_def qualitySample_def MAX_STDDEV_def)
  then show ?thesis
    using applyCalibrationAffine_falls_back [of ?ps 1920 1080 newAffineTracker]
    by (simp add: useDefaultCalibration_def newAffineTracker_def)
qed

text \<open>
  C4 (as amended). The default transform is a fixed linear mapping that sends the normalized
  gaze (0, 0) to the centre of the screen and under which a normalized range of total width
  0.6, that is -0.3 to +0.3, fills the screen: x = -0.3 and x = +0.3 give the screen
  positions 0 and \<open>sw\<close>, and likewise y with \<open>sh\<close>. At -0.6 and +0.6 the transform gives
  \<open>-sw/2\<close> and \<open>3\<cdot>sw/2\<close> (\<open>-sh/2\<close> and \<open>3\<cdot>sh/2\<close>), which only the clamp of the estimator
  brings back to 0 and \<open>sw\<close> (\<open>sh\<close>).
\<close>

theorem default_transform_range:
  "affineMap (affineMatrix (useDefaultCalibration sw sh t)) 0 0 = (real sw / 2, real sh / 2)
   \<and> fst (affineMap (affineMatrix (useDefaultCalibration sw sh t)) (- 0.3) normY) = 0
   \<and> fst (affineMap (affineMatrix (useDefaultCalibration sw sh t)) 0.3 normY) = real sw
   \<and> snd (affineMap (affineMatrix (useDefaultCalibration sw sh t)) normX (- 0.3)) = 0
   \<and> snd (affineMap (affineMatrix (useDefaultCalibration sw sh t)) normX 0.3) = real sh
   \<and> fst (affineMap (affineMatrix (useDefaultCalibration sw sh t)) (- 0.6) normY) = - (real sw / 2)
   \<and> fst (affineMap (affineMatrix (useDefaultCalibration sw sh t)) 0.6 normY) = 3 * real sw / 2
   \<and> snd (affineMap (affineMatrix (useDefaultCalibration sw sh t)) normX (- 0.6)) = - (real sh / 2)
   \<and> snd (affineMap (affineMatrix (useDefaultCalibration sw sh t)) normX 0.6) = 3 * real sh / 2
   \<and> clampAffine sw sh (affineMap (affineMatrix (useDefaultCalibration sw sh t)) (- 0.6) (- 0.6)) = (0, 0)
   \<and> clampAffine sw sh (affineMap (affineMatrix (useDefaultCalibration sw sh t)) 0.6 0.6) = (real sw, real sh)"
  by (simp add: useDefaultCalibration_fields affineMap_def clampAffine_def)

text \<open>The claim as it is written, at a 1920 by 1080 screen: the default transform sends
  x = -0.6 to -960, not to 0, and x = +0.6 to 2880, not to 1920.\<close>

theorem default_transform_counterexample:
  "fst (affineMap (affineMatrix (useDefaultCalibration 1920 1080 newAffineTracker)) (- 0.6) 0) = - 960
   \<and> fst (affineMap (affineMatrix (useDefaultCalibration 1920 1080 newAffineTracker)) 0.6 0) = 2880
   \<and> snd (affineMap (affineMatrix (useDefaultCalibration 1920 1080 newAffineTracker)) 0 (- 0.6)) = - 540
   \<and> snd (affineMap (affineMatrix (useDefaultCalibration 1920 1080 newAffineTracker)) 0 0.6) = 1620"
  by (simp add: useDefaultCalibration_fields affineMap_def)

text \<open>
  C8. With an empty array of samples both fitters return the tracker as it was: the linear
  one keeps its calibration matrix, the affine one its matrix and its calibrated flag.
\<close>

theorem applyCalibration_empty_noop:
  "applyCalibration sw sh t [] = t
   \<and> applyCalibrationAffine sw sh u [] = u
   \<and> affineMatrix (applyCalibrationAffine sw sh u []) = affineMatrix u
   \<and> isCalibrated (applyCalibrationAffine sw sh u []) = isCalibrated u"
  by (simp add: applyCalibration_def applyCalibrationAffine_def)

text \<open>The three ways through the affine fitter at four samples: a singular system (all
  measurements equal), a fit that is installed, and a fit whose scale is implausible.\<close>

lemma sumsOf_four:
  "sumsOf [p1, p2, p3, p4] =
     accumulate (accumulate (accumulate (accumulate
       \<lparr> sumX = 0, sumY = 0, sumXX = 0, sumYY = 0, sumXY = 0, sumDstX = 0, sumDstY = 0,
         sumXDstX = 0, sumYDstX = 0, sumXDstY = 0, sumYDstY = 0 \<rparr> p1) p2) p3) p4"
  by (simp add: sumsOf_def)

lemma identical_measurements_fall_back:
  "applyCalibrationAffine 1920 1080 newAffineTracker
     [qualitySample 288 162 0.1 0.2 5, qualitySample 960 162 0.1 0.2 5,
      qualitySample 1632 162 0.1 0.2 5, qualitySample 288 540 0.1 0.2 5]
   = useDefaultCalibration 1920 1080 newAffineTracker"
  by (simp add: applyCalibrationAffine_def goodPoints_def isGood_def qualitySample_def MAX_STDDEV_def
      toDatum_def sumsOf_four accumulate_def detA_def Let_def)

lemma plausible_fit_installed:
  "applyCalibrationAffine 1920 1080 newAffineTracker
     [qualitySample 0 0 (- 0.25) (- 0.25) 5, qualitySample 1920 0 0.25 (- 0.25) 5,
      qualitySample 0 1080 (- 0.25) 0.25 5, qualitySample 1920 1080 0.25 0.25 5]
   = \<lparr> affineMatrix = \<lparr> m_a = 3840, m_b = 0, m_c = 0, m_d = 2160, tx = 960, ty = 540 \<rparr>,
       isCalibrated = True \<rparr>"
  by (simp add: applyCalibrationAffine_def goodPoints_def isGood_def qualitySample_def MAX_STDDEV_def
      toDatum_def sumsOf_four accumulate_def detA_def fitMatrix_def effectiveScaleX_def
      primaryScaleY_def MAX_SCALE_def MIN_SCALE_def expectedScale_def newAffineTracker_def Let_def)

lemma implausible_fit_falls_back:
  "effectiveScaleX (fittedMatrix
     [qualitySample 0 0 (- 0.01) (- 0.01) 5, qualitySample 1920 0 0.01 (- 0.01) 5,
      qualitySample 0 1080 (- 0.01) 0.01 5, qualitySample 1920 1080 0.01 0.01 5]) = 96000
   \<and> MAX_SCALE 1920 = 9600
   \<and> applyCalibrationAffine 1920 1080 newAffineTracker
     [qualitySample 0 0 (- 0.01) (- 0.01) 5, qualitySample 1920 0 0.01 (- 0.01) 5,
      qualitySample 0 1080 (- 0.01) 0.01 5, qualitySample 1920 1080 0.01 0.01 5]
   = useDefaultCalibration 1920 1080 newAffineTracker"
  by (simp add: applyCalibrationAffine_def goodPoints_def isGood_def qualitySample_def MAX_STDDEV_def
      toDatum_def sumsOf_four accumulate_def detA_def fitMatrix_def fittedMatrix_def effectiveScaleX_def
      primaryScaleY_def MAX_SCALE_def MIN_SCALE_def expectedScale_def newAffineTracker_def Let_def)

section \<open>The per-point capture\<close>

lemma foldl_plus_sum_list: "foldl (\<lambda>s g. s + f g) u vs = u + (\<Sum>g \<leftarrow> vs. f g)"
  by (induction vs arbitrary: u) (simp_all add: add.assoc)

lemma trimCount_value: "trimCount = 5"
  by (simp add: trimCount_def sampleCount_def)

lemma indexOf_member:
  "v \<in> set us \<Longrightarrow> 0 \<le> indexOf us v \<and> indexOf us v < int (length us) \<and> us ! nat (indexOf us v) = v"
proof (induction us)
  case Nil
  then show ?case by simp
next
  case (Cons u us)
  show ?case
  proof (cases "u = v")
    case True
    then show ?thesis by simp
  next
    case False
    with Cons.prems have "v \<in> set us" by simp
    from Cons.IH [OF this] False show ?thesis
      by (simp add: nat_add_distrib)
  qed
qed

lemma capturePoint_means:
  "x (measured (capturePoint heap samples target)) = mean (map (\<lambda>r. x (heap r)) (validSamples heap samples))"
  "y (measured (capturePoint heap samples target)) = mean (map (\<lambda>r. y (heap r)) (validSamples heap samples))"
  "normalizedX (measured (capturePoint heap samples target))
     = Some (mean (map (\<lambda>r. orZero (normalizedX (heap r))) (validSamples heap samples)))"
  "normalizedY (measured (capturePoint heap samples target))
     = Some (mean (map (\<lambda>r. orZero (normalizedY (heap r))) (validSamples heap samples)))"
  "actual (capturePoint heap samples target) = target"
  by (simp_all add: capturePoint_def Let_def foldl_plus_sum_list mean_def)

lemma capturePoint_stdDev:
  "stdDev (capturePoint heap samples target)
     = Some (sqrt (variance (map (\<lambda>r. x (heap r)) (validSamples heap samples))
                 + variance (map (\<lambda>r. y (heap r)) (validSamples heap samples))))"
  by (simp add: capturePoint_def Let_def foldl_plus_sum_list mean_def variance_def comp_def)

lemma validSamples_length:
  assumes "length samples = sampleCount"
  shows "10 \<le> length (validSamples heap samples)"
  using assms by (simp add: validSamples_def sampleCount_def)

text \<open>
  What holds for every array of 50 collected samples. The rank of a sample on an axis, as
  the routine computes it, is its index in the copy of the array that is sorted by that
  coordinate; for an object that stands in the array several times it is the index of the
  first occurrence. The routine keeps the samples whose two ranks are at least 5 and below
  45; if fewer than 10 samples are left it takes all 50 instead, so the averaged set has at
  least 10 samples. The measured coordinates of the emitted sample are the means over that
  set, and its \<^verbatim>\<open>stdDev\<close> is \<open>sqrt(var(x) + var(y))\<close> over the same set, the variance
  being the mean squared deviation.
\<close>

lemma capturePoint_trims_and_averages:
  assumes "length samples = sampleCount"
  shows "sorted (map (\<lambda>r. x (heap r)) (sortedX heap samples))
       \<and> mset (sortedX heap samples) = mset samples
       \<and> sorted (map (\<lambda>r. y (heap r)) (sortedY heap samples))
       \<and> mset (sortedY heap samples) = mset samples
       \<and> (\<forall>r \<in> set samples.
             0 \<le> xRank heap samples r \<and> xRank heap samples r < 50
             \<and> sortedX heap samples ! nat (xRank heap samples r) = r
             \<and> 0 \<le> yRank heap samples r \<and> yRank heap samples r < 50
             \<and> sortedY heap samples ! nat (yRank heap samples r) = r)
       \<and> trimmedSamples heap samples =
            filter (\<lambda>r. 5 \<le> xRank heap samples r \<and> xRank heap samples r < 45
                       \<and> 5 \<le> yRank heap samples r \<and> yRank heap samples r < 45) samples
       \<and> validSamples heap samples =
            (if length (trimmedSamples heap samples) < 10 then samples else trimmedSamples heap samples)
       \<and> 10 \<le> length (validSamples heap samples)
       \<and> actual (capturePoint heap samples target) = target
       \<and> x (measured (capturePoint heap samples target))
            = mean (map (\<lambda>r. x (heap r)) (validSamples heap samples))
       \<and> y (measured (capturePoint heap samples target))
            = mean (map (\<lambda>r. y (heap r)) (validSamples heap samples))
       \<and> normalizedX (measured (capturePoint heap samples target))
            = Some (mean (map (\<lambda>r. orZero (normalizedX (heap r))) (validSamples heap samples)))
       \<and> normalizedY (measured (capturePoint heap samples target))
            = Some (mean (map (\<lambda>r. orZero (normalizedY (heap r))) (validSamples heap samples)))
       \<and> stdDev (capturePoint heap samples target)
            = Some (sqrt (variance (map (\<lambda>r. x (heap r)) (validSamples heap samples))
                        + variance (map (\<lambda>r. y (heap r)) (validSamples heap samples))))"
proof -
  have ranks: "0 \<le> xRank heap samples r \<and> xRank heap samples r < 50
             \<and> sortedX heap samples ! nat (xRank heap samples r) = r
             \<and> 0 \<le> yRank heap samples r \<and> yRank heap samples r < 50
             \<and> sortedY heap samples ! nat (yRank heap samples r) = r" if "r \<in> set samples" for r
    using that assms
      indexOf_member [of r "sortedX heap samples"] indexOf_member [of r "sortedY heap samples"]
    by (simp add: xRank_def yRank_def sortedX_def sortedY_def sampleCount_def)
  have trim: "trimmedSamples heap samples =
            filter (\<lambda>r. 5 \<le> xRank heap samples r \<and> xRank heap samples r < 45
                       \<and> 5 \<le> yRank heap samples r \<and> yRank heap samples r < 45) samples"
    by (simp add: trimmedSamples_def trimCount_value sampleCount_def)
  have valid: "validSamples heap samples =
            (if length (trimmedSamples heap samples) < 10 then samples else trimmedSamples heap samples)"
    by (simp add: validSamples_def)
  have sortsX: "sorted (map (\<lambda>r. x (heap r)) (sortedX heap samples))" "mset (sortedX heap samples) = mset samples"
    by (simp_all add: sortedX_def)
  have sortsY: "sorted (map (\<lambda>r. y (heap r)) (sortedY heap samples))" "mset (sortedY heap samples) = mset samples"
    by (simp_all add: sortedY_def)
  have ranksB: "\<forall>r \<in> set samples.
             0 \<le> xRank heap samples r \<and> xRank heap samples r < 50
             \<and> sortedX heap samples ! nat (xRank heap samples r) = r
             \<and> 0 \<le> yRank heap samples r \<and> yRank heap samples r < 50
             \<and> sortedY heap samples ! nat (yRank heap samples r) = r"
    using ranks by blast
  note len = validSamples_length [OF assms, of heap]
  note means = capturePoint_means [of heap samples target]
  note sd = capturePoint_stdDev [of heap samples target]
  show ?thesis
    by (intro conjI) (fact sortsX sortsY ranksB trim valid len means sd)+
qed

text \<open>When one gaze point object fills the whole array (no new frame during the capture),
  every rank is 0, the trimming leaves nothing and all 50 samples are averaged.\<close>

lemma insort_key_replicate: "insort_key f v (replicate n v) = replicate (Suc n) v"
  by (cases n) simp_all

lemma sort_key_replicate: "sort_key f (replicate n v) = replicate n v"
  by (induction n) (simp_all add: insort_key_replicate)

lemma aliased_samples_fall_back:
  "trimmedSamples heap (replicate 50 r) = [] \<and> validSamples heap (replicate 50 r) = replicate 50 r"
proof -
  have "indexOf (replicate 50 r) r = 0"
    by (simp add: numeral_eq_Suc)
  then have "trimmedSamples heap (replicate 50 r) = []"
    by (simp add: trimmedSamples_def xRank_def sortedX_def sort_key_replicate trimCount_value)
  then show ?thesis
    by (simp add: validSamples_def)
qed


text \<open>Fifty distinct gaze points along the diagonal: the five lowest and the five highest
  are dropped.\<close>

lemma indexOf_upt:
  "m \<le> r \<Longrightarrow> r < n \<Longrightarrow> indexOf [m..<n] r = int (r - m)"
proof (induction "r - m" arbitrary: m)
  case 0
  then have "[m..<n] = m # [Suc m..<n]" and "r = m"
    by (simp_all add: upt_conv_Cons)
  then show ?case by simp
next
  case (Suc k)
  then have c: "[m..<n] = m # [Suc m..<n]" and ne: "m \<noteq> r"
    by (simp_all add: upt_conv_Cons)
  have lt: "m < r"
    using Suc.hyps(2) by simp
  have "indexOf [Suc m..<n] r = int (r - Suc m)"
    using Suc by (intro Suc.hyps(1)) simp_all
  then show ?case
    using lt ne by (simp add: c)
qed

lemma diagonal_sorted:
  "sortedX diagonalHeap [0..<n] = [0..<n]" "sortedY diagonalHeap [0..<n] = [0..<n]"
  unfolding sortedX_def sortedY_def
  by (rule sort_key_id_if_sorted, simp add: diagonalHeap_def sorted_map sorted_wrt_iff_nth_less)+

lemma diagonal_trimmed: "trimmedSamples diagonalHeap [0..<50] = [5..<45]"
proof -
  have split: "[0..<50] = [0..<5] @ [5..<45] @ [45..<50]"
    using upt_add_eq_append [of 0 5 45] upt_add_eq_append [of 5 45 5] by simp
  have rk: "xRank diagonalHeap [0..<50] r = int r \<and> yRank diagonalHeap [0..<50] r = int r" if "r < 50" for r
    using that by (simp add: xRank_def yRank_def diagonal_sorted indexOf_upt)
  have "trimmedSamples diagonalHeap [0..<50] = filter (\<lambda>r. 5 \<le> r \<and> r < 45) [0..<50]"
    unfolding trimmedSamples_def
    by (rule filter_cong) (auto simp: rk trimCount_value sampleCount_def)
  also have "\<dots> = [5..<45]"
    unfolding split by (simp add: filter_empty_conv)
  finally show ?thesis .
qed

lemma diagonal_capture:
  "10 \<le> length (validSamples diagonalHeap [0..<50])
   \<and> validSamples diagonalHeap [0..<50] = [5..<45]
   \<and> x (measured (capturePoint diagonalHeap [0..<50] \<lparr> x = 960, y = 540 \<rparr>))
       = mean (map (\<lambda>r. x (diagonalHeap r)) [5..<45])"
proof -
  have l: "length [0..<50] = sampleCount"
    by (simp add: sampleCount_def)
  have v: "validSamples diagonalHeap [0..<50] = [5..<45]"
    by (simp add: validSamples_def diagonal_trimmed)
  from capturePoint_trims_and_averages [OF l, of diagonalHeap "\<lparr> x = 960, y = 540 \<rparr>"]
  have "10 \<le> length (validSamples diagonalHeap [0..<50])"
    and "x (measured (capturePoint diagonalHeap [0..<50] \<lparr> x = 960, y = 540 \<rparr>))
       = mean (map (\<lambda>r. x (diagonalHeap r)) (validSamples diagonalHeap [0..<50]))"
    by blast+
  then show ?thesis
    using v by simp
qed

text \<open>The stalled capture: the array is sorted on both axes as it stands, and the far
  gaze point, which occupies the ten highest places, has the rank 40 on both.\<close>

lemma indexOf_absent: "v \<notin> set us \<Longrightarrow> indexOf us v = - 1"
  by (induction us) auto

lemma indexOf_append:
  "indexOf (us @ vs) v =
     (if v \<in> set us then indexOf us v
      else if indexOf vs v < 0 then - 1 else int (length us) + indexOf vs v)"
proof (induction us)
  case Nil
  show ?case using indexOf_member [of v vs] indexOf_absent [of v vs]
    by (cases "v \<in> set vs") auto
next
  case (Cons u us)
  show ?case
    using Cons indexOf_member [of v us] by auto
qed

lemma stalled_keys:
  "map (\<lambda>r. x (stalledHeap r)) stalledSamples = map real [0..<40] @ replicate 10 1000"
  "map (\<lambda>r. y (stalledHeap r)) stalledSamples = map real [0..<40] @ replicate 10 1000"
  by (simp_all add: stalledSamples_def stalledHeap_def diagonalHeap_def cong: map_cong)

lemma stalled_keys_sorted: "sorted (map real [0..<40] @ replicate 10 1000)"
proof -
  have "sorted (map real [0..<40])"
    by (simp add: sorted_map sorted_wrt_iff_nth_less)
  then show ?thesis
    by (auto simp: sorted_append)
qed

lemma stalled_sorted:
  "sortedX stalledHeap stalledSamples = stalledSamples"
  "sortedY stalledHeap stalledSamples = stalledSamples"
  unfolding sortedX_def sortedY_def
  by (rule sort_key_id_if_sorted, simp only: stalled_keys stalled_keys_sorted)+

lemma stalled_members: "r \<in> set stalledSamples \<longleftrightarrow> r < 40 \<or> r = 40"
  by (auto simp: stalledSamples_def)

lemma stalled_ranks:
  "r < 40 \<Longrightarrow> xRank stalledHeap stalledSamples r = int r \<and> yRank stalledHeap stalledSamples r = int r"
  "xRank stalledHeap stalledSamples 40 = 40 \<and> yRank stalledHeap stalledSamples 40 = 40"
proof -
  have i: "indexOf (replicate 10 (40::nat)) 40 = 0"
    by (simp add: numeral_eq_Suc)
  show "r < 40 \<Longrightarrow> xRank stalledHeap stalledSamples r = int r \<and> yRank stalledHeap stalledSamples r = int r"
    by (simp add: xRank_def yRank_def stalled_sorted)
       (simp add: stalledSamples_def indexOf_append indexOf_upt)
  show "xRank stalledHeap stalledSamples 40 = 40 \<and> yRank stalledHeap stalledSamples 40 = 40"
    by (simp add: xRank_def yRank_def stalled_sorted)
       (simp add: stalledSamples_def indexOf_append i)
qed

lemma stalled_trimmed: "trimmedSamples stalledHeap stalledSamples = [5..<40] @ replicate 10 40"
proof -
  have split: "[0..<40] = [0..<5] @ [5..<40]"
    using upt_add_eq_append [of 0 5 35] by simp
  have "trimmedSamples stalledHeap stalledSamples
          = filter (\<lambda>r. 5 \<le> r) stalledSamples"
    unfolding trimmedSamples_def
  proof (rule filter_cong)
    fix r assume "r \<in> set stalledSamples"
    then consider "r < 40" | "r = 40"
      using stalled_members by blast
    then show "(trimCount \<le> xRank stalledHeap stalledSamples r
                 \<and> xRank stalledHeap stalledSamples r < int sampleCount - trimCount
                 \<and> trimCount \<le> yRank stalledHeap stalledSamples r
                 \<and> yRank stalledHeap stalledSamples r < int sampleCount - trimCount) = (5 \<le> r)"
      by cases (auto simp: stalled_ranks trimCount_value sampleCount_def)
  qed simp
  also have "\<dots> = [5..<40] @ replicate 10 40"
    by (simp add: stalledSamples_def split filter_empty_conv)
  finally show ?thesis .
qed

lemma sum_list_5_40: "(\<Sum>r \<leftarrow> [5..<40]. real r) = 770"
  by (simp add: upt_rec)

text \<open>
  C6. The routine is to drop the samples ranked in the bottom or top 10 percent on either
  axis. In the stalled capture the ten highest places of both sorted copies, among them the
  places 45 to 49, hold the gaze point at (1000, 1000), whose object stands in the array
  ten times, while every other sample has x and y below 40. \<^verbatim>\<open>indexOf\<close> gives each of
  the ten the rank 40, which is below 45: the routine drops the five lowest samples and
  none of the ten highest, 45 samples are averaged, and the measured x is 718 / 3 (about
  239.3).
\<close>

theorem capturePoint_keeps_repeated_outlier:
  "length stalledSamples = sampleCount
   \<and> stalledSamples = [0..<40] @ replicate 10 40
   \<and> sortedX stalledHeap stalledSamples = stalledSamples
   \<and> sortedY stalledHeap stalledSamples = stalledSamples
   \<and> drop 45 (sortedX stalledHeap stalledSamples) = replicate 5 40
   \<and> drop 45 (sortedY stalledHeap stalledSamples) = replicate 5 40
   \<and> xRank stalledHeap stalledSamples 40 = 40
   \<and> yRank stalledHeap stalledSamples 40 = 40
   \<and> x (stalledHeap 40) = 1000
   \<and> list_all (\<lambda>r. x (stalledHeap r) < 40) [0..<40]
   \<and> validSamples stalledHeap stalledSamples = [5..<40] @ replicate 10 40
   \<and> x (measured (capturePoint stalledHeap stalledSamples \<lparr> x = 960, y = 540 \<rparr>)) = 718 / 3"
proof -
  have l: "length stalledSamples = sampleCount"
    by (simp add: stalledSamples_def sampleCount_def)
  have o: "x (stalledHeap 40) = 1000"
    by (simp add: stalledHeap_def)
  have v: "validSamples stalledHeap stalledSamples = [5..<40] @ replicate 10 40"
    by (simp add: validSamples_def stalled_trimmed)
  have inl: "list_all (\<lambda>r. x (stalledHeap r) < 40) [0..<40]"
    by (simp add: list_all_iff stalledHeap_def diagonalHeap_def)
  have "map (\<lambda>r. x (stalledHeap r)) [5..<40] = map real [5..<40]"
    by (simp add: stalledHeap_def diagonalHeap_def)
  then have m: "(\<Sum>r \<leftarrow> [5..<40]. x (stalledHeap r)) = 770"
    by (simp only: sum_list_5_40)
  have s1: "(\<Sum>r \<leftarrow> [5..<40] @ replicate 10 40. x (stalledHeap r))
              = (\<Sum>r \<leftarrow> [5..<40]. x (stalledHeap r)) + (\<Sum>r \<leftarrow> replicate 10 (40::nat). x (stalledHeap r))"
    by (simp only: map_append sum_list_append)
  have s2: "(\<Sum>r \<leftarrow> replicate 10 (40::nat). x (stalledHeap r)) = 10000"
    by (simp add: sum_list_replicate stalledHeap_def)
  have len: "length (map (\<lambda>r. x (stalledHeap r)) ([5..<40] @ replicate 10 40)) = 45"
    by simp
  have "mean (map (\<lambda>r. x (stalledHeap r)) ([5..<40] @ replicate 10 40)) = 718 / 3"
    unfolding mean_def len s1 m s2 by simp
  then have a: "x (measured (capturePoint stalledHeap stalledSamples \<lparr> x = 960, y = 540 \<rparr>)) = 718 / 3"
    by (simp only: capturePoint_means v)
  have top: "drop 45 (sortedX stalledHeap stalledSamples) = replicate 5 40"
      "drop 45 (sortedY stalledHeap stalledSamples) = replicate 5 40"
    by (simp_all add: stalled_sorted) (simp_all add: stalledSamples_def)
  have rk: "xRank stalledHeap stalledSamples 40 = 40" "yRank stalledHeap stalledSamples 40 = 40"
    using stalled_ranks(2) by simp_all
  show ?thesis
    by (intro conjI) (fact l stalledSamples_def stalled_sorted top rk o inl v a)+
qed

text \<open>When the samples are distinct objects, the rank of a sample is its one place in the
  sorted copy, so that the filter drops exactly the samples at the places 0 to 4 and 45 to
  49 of either sorted copy.\<close>

lemma distinct_samples_rank_is_position:
  assumes "distinct samples" and "r \<in> set samples" and "i < length samples"
  shows "sortedX heap samples ! i = r \<longleftrightarrow> int i = xRank heap samples r"
    and "sortedY heap samples ! i = r \<longleftrightarrow> int i = yRank heap samples r"
proof -
  have pos: "us ! i = r \<longleftrightarrow> int i = indexOf us r"
    if "distinct us" "r \<in> set us" "i < length us" for us :: "ref list"
  proof -
    from indexOf_member [OF that(2)]
    have k: "0 \<le> indexOf us r" "nat (indexOf us r) < length us" "us ! nat (indexOf us r) = r"
      by (auto simp: nat_less_iff)
    have "us ! i = r \<longleftrightarrow> i = nat (indexOf us r)"
      using nth_eq_iff_index_eq [OF that(1,3) k(2)] k(3) by simp
    also have "\<dots> \<longleftrightarrow> int i = indexOf us r"
      using k(1) by auto
    finally show ?thesis .
  qed
  show "sortedX heap samples ! i = r \<longleftrightarrow> int i = xRank heap samples r"
    unfolding xRank_def using assms by (intro pos) (simp_all add: sortedX_def)
  show "sortedY heap samples ! i = r \<longleftrightarrow> int i = yRank heap samples r"
    unfolding yRank_def using assms by (intro pos) (simp_all add: sortedY_def)
qed

section \<open>The validation pass\<close>

lemma foldl_plus_real: "foldl (+) u vs = u + sum_list (vs :: real list)"
  by (induction vs arbitrary: u) (simp_all add: add.assoc)

lemma showNextPoint_errors:
  "fst (showNextPoint onGazeCapture s points errors)
     = errors @ map2 distance (measurements onGazeCapture s points) points"
proof (induction points arbitrary: s errors)
  case Nil
  show ?case by simp
next
  case (Cons point rest)
  show ?case
    using Cons [of "snd (onGazeCapture s point)"]
    by (simp add: Let_def case_prod_beta distance_def)
qed

lemma measurements_length: "length (measurements onGazeCapture s points) = length points"
  by (induction points arbitrary: s) simp_all

lemma measurements_offset:
  assumes "\<forall>s p. fst (onGazeCapture s p) = \<lparr> x = x p + vx, y = y p + vy \<rparr>"
  shows "map2 distance (measurements onGazeCapture s points) points
           = replicate (length points) (sqrt (vx ^ 2 + vy ^ 2))"
  using assms
  by (induction points arbitrary: s) (simp_all add: distance_def)

lemma runValidation_result:
  "fst (runValidation sw sh onGazeCapture s) =
     \<lparr> success = sum_list (map2 distance (measurements onGazeCapture s (validationPoints sw sh))
                                          (validationPoints sw sh)) / 5 < 100,
       avgError = sum_list (map2 distance (measurements onGazeCapture s (validationPoints sw sh))
                                          (validationPoints sw sh)) / 5 \<rparr>"
proof -
  have l: "length (validationPoints sw sh) = 5"
    by (simp add: validationPoints_def)
  have e: "fst (showNextPoint onGazeCapture s (validationPoints sw sh) [])
     = map2 distance (measurements onGazeCapture s (validationPoints sw sh)) (validationPoints sw sh)"
    by (simp add: showNextPoint_errors)
  show ?thesis
    by (simp add: runValidation_def case_prod_beta Let_def e measurements_length l foldl_plus_real)
qed

text \<open>
  What the validation pass computes, for every capture routine: it has 5 targets and asks
  the capture routine for one measurement per target, in order. The error of a target is
  the Euclidean distance between the measurement and the target, \<^verbatim>\<open>avgError\<close> is the
  sum of the 5 errors divided by 5, and \<^verbatim>\<open>success\<close> holds exactly when
  \<^verbatim>\<open>avgError\<close> is below 100. If every measurement is its target moved by one fixed
  vector, \<^verbatim>\<open>avgError\<close> is the length of that vector.
\<close>

lemma runValidation_mean_error:
  "length (validationPoints sw sh) = 5
   \<and> length (measurements onGazeCapture s (validationPoints sw sh)) = 5
   \<and> avgError (fst (runValidation sw sh onGazeCapture s))
       = sum_list (map2 distance (measurements onGazeCapture s (validationPoints sw sh))
                                 (validationPoints sw sh)) / 5
   \<and> (success (fst (runValidation sw sh onGazeCapture s))
        \<longleftrightarrow> avgError (fst (runValidation sw sh onGazeCapture s)) < 100)
   \<and> ((\<forall>s p. fst (onGazeCapture s p) = \<lparr> x = x p + vx, y = y p + vy \<rparr>)
        \<longrightarrow> avgError (fst (runValidation sw sh onGazeCapture s)) = sqrt (vx ^ 2 + vy ^ 2))"
proof -
  have l: "length (validationPoints sw sh) = 5"
    by (simp add: validationPoints_def)
  have off: "avgError (fst (runValidation sw sh onGazeCapture s)) = sqrt (vx ^ 2 + vy ^ 2)"
    if "\<forall>s p. fst (onGazeCapture s p) = \<lparr> x = x p + vx, y = y p + vy \<rparr>"
    using measurements_offset [OF that, of s "validationPoints sw sh"]
    by (simp add: runValidation_result l sum_list_replicate)
  show ?thesis
    using off by (simp add: runValidation_result l measurements_length)
qed

text \<open>A capture routine that is off by the vector (3, 4) on a 1920 by 1080 screen.\<close>

lemma runValidation_off_by_3_4:
  "avgError (fst (runValidation 1920 1080 (\<lambda>s p. (\<lparr> x = x p + 3, y = y p + 4 \<rparr>, s)) ())) = 5
   \<and> success (fst (runValidation 1920 1080 (\<lambda>s p. (\<lparr> x = x p + 3, y = y p + 4 \<rparr>, s)) ()))"
proof -
  have s: "sqrt (3 ^ 2 + 4 ^ 2) = (5::real)"
    using real_sqrt_abs [of 5] by simp
  show ?thesis
    using runValidation_mean_error [of 1920 1080 "\<lambda>s p. (\<lparr> x = x p + 3, y = y p + 4 \<rparr>, s)" "()" 3 4]
    by (simp add: s)
qed

text \<open>On a screen of positive width and height the other four targets are not points of
  the calibration grid.\<close>

lemma validation_targets_on_grid:
  "0 < sw \<Longrightarrow> 0 < sh \<Longrightarrow>
     set (validationPoints sw sh) \<inter> set (generateCalibrationGrid sw sh)
       = {\<lparr> x = real sw * 0.5, y = real sh * 0.5 \<rparr>}"
  by (auto simp: validationPoints_def generateCalibrationGrid_def)

text \<open>
  C7. The targets of the validation pass are meant to be different from the calibration
  points: the comment at the list reads
  \<^verbatim>\<open>Validation points (different from calibration)\<close>. On every screen the third target
  of \<^verbatim>\<open>runValidation\<close>, the centre of the screen, is the fifth point of
  \<^verbatim>\<open>generateCalibrationGrid\<close>: the validation pass measures again at a point the
  calibration was fitted to. At 1920 by 1080 it is the point (960, 540).
\<close>

theorem runValidation_reuses_calibration_centre:
  "validationPoints sw sh ! 2 = generateCalibrationGrid sw sh ! 4
   \<and> validationPoints sw sh ! 2 \<in> set (validationPoints sw sh)
   \<and> validationPoints sw sh ! 2 \<in> set (generateCalibrationGrid sw sh)
   \<and> validationPoints 1920 1080 ! 2 = \<lparr> x = 960, y = 540 \<rparr>
   \<and> generateCalibrationGrid 1920 1080 ! 4 = \<lparr> x = 960, y = 540 \<rparr>"
  by (simp add: validationPoints_def generateCalibrationGrid_def)

section \<open>Facts about rounding\<close>

lemma two_powi_pos: "0 < (2::real) powi k"
  by (simp add: zero_less_power_int)

lemma two_powi_mono: "i \<le> j \<Longrightarrow> (2::real) powi i \<le> 2 powi j"
  by (simp add: power_int_increasing)

lemma two_powi_strict_mono: "i < j \<Longrightarrow> (2::real) powi i < 2 powi j"
  by (simp add: power_int_strict_increasing)

lemma two_powi_add: "(2::real) powi (i + j) = 2 powi i * 2 powi j"
  by (simp add: power_int_add)

lemma two_powi_diff: "(2::real) powi (i - j) = 2 powi i / 2 powi j"
  by (simp add: power_int_diff)

lemma two_powi_nat: "0 \<le> j \<Longrightarrow> (2::real) powi j = of_int (2 ^ nat j)"
  by (simp add: power_int_def)

lemma floor_log2_iff:
  assumes "0 < v"
  shows "(\<lfloor>log 2 v\<rfloor> = k) = (2 powi k \<le> v \<and> v < 2 powi (k + 1))"
proof -
  have two: "(1::real) < 2" by simp
  have a: "2 powr real_of_int j = 2 powi j" for j :: int
    by (simp add: powr_real_of_int')
  show ?thesis
    using floor_log_eq_powr_iff [OF assms two, of k] unfolding a .
qed

lemma floor_log2:
  assumes "r \<noteq> 0"
  shows "2 powi \<lfloor>log 2 \<bar>r\<bar>\<rfloor> \<le> \<bar>r\<bar>" and "\<bar>r\<bar> < 2 powi (\<lfloor>log 2 \<bar>r\<bar>\<rfloor> + 1)"
proof -
  have p: "0 < \<bar>r\<bar>" using assms by simp
  show "2 powi \<lfloor>log 2 \<bar>r\<bar>\<rfloor> \<le> \<bar>r\<bar>" and "\<bar>r\<bar> < 2 powi (\<lfloor>log 2 \<bar>r\<bar>\<rfloor> + 1)"
    using floor_log2_iff [OF p, of "\<lfloor>log 2 \<bar>r\<bar>\<rfloor>"] by blast+
qed

lemma exponent_ge: "- 1022 \<le> exponent r"
  by (simp add: exponent_def)

lemma exponent_upper: "r \<noteq> 0 \<Longrightarrow> \<bar>r\<bar> < 2 powi (exponent r + 1)"
proof -
  assume r: "r \<noteq> 0"
  have "\<lfloor>log 2 \<bar>r\<bar>\<rfloor> + 1 \<le> exponent r + 1"
    by (simp add: exponent_def)
  then have "(2::real) powi (\<lfloor>log 2 \<bar>r\<bar>\<rfloor> + 1) \<le> 2 powi (exponent r + 1)"
    by (rule two_powi_mono)
  with floor_log2(2) [OF r] show ?thesis by linarith
qed

lemma exponent_lower: "r \<noteq> 0 \<Longrightarrow> - 1022 < exponent r \<Longrightarrow> 2 powi (exponent r) \<le> \<bar>r\<bar>"
  using floor_log2(1) [of r] by (simp add: exponent_def max_def split: if_splits)

lemma exponent_normal: "2 powi (- 1022) \<le> \<bar>r\<bar> \<Longrightarrow> 2 powi (exponent r) \<le> \<bar>r\<bar>"
proof -
  assume a: "2 powi (- 1022) \<le> \<bar>r\<bar>"
  then have r: "r \<noteq> 0" using two_powi_pos [of "- 1022"] by auto
  show ?thesis
  proof (cases "- 1022 < exponent r")
    case True
    then show ?thesis using exponent_lower [OF r] by simp
  next
    case False
    then have "exponent r = - 1022" using exponent_ge [of r] by simp
    then show ?thesis using a by simp
  qed
qed

lemma exponent_eqI:
  assumes "2 powi e \<le> \<bar>r\<bar>" and "\<bar>r\<bar> < 2 powi (e + 1)" and "- 1022 \<le> e"
  shows "exponent r = e"
proof -
  have p: "0 < \<bar>r\<bar>" using assms(1) two_powi_pos [of e] by linarith
  have "\<lfloor>log 2 \<bar>r\<bar>\<rfloor> = e"
    using floor_log2_iff [OF p, of e] assms(1,2) by blast
  then show ?thesis using assms(3) by (simp add: exponent_def)
qed

lemma exponent_minus [simp]: "exponent (- r) = exponent r"
  by (simp add: exponent_def)

lemma ulp_minus [simp]: "ulp (- r) = ulp r"
  by (simp add: ulp_def)

lemma ulp_pos: "0 < ulp r"
  by (simp add: ulp_def two_powi_pos)

lemma roundEven_of_int [simp]: "roundEven (of_int k) = k"
  by (simp add: roundEven_def)

lemma roundEven_near: "\<bar>of_int (roundEven z) - z\<bar> \<le> 1 / 2"
proof -
  have "of_int \<lfloor>z\<rfloor> \<le> z" "z < of_int \<lfloor>z\<rfloor> + 1" by linarith+
  then show ?thesis
    by (auto simp: roundEven_def Let_def)
qed

lemma roundEven_le: "z \<le> of_int n \<Longrightarrow> roundEven z \<le> n"
proof -
  assume a: "z \<le> of_int n"
  show ?thesis
  proof (cases "z = of_int n")
    case True
    then show ?thesis by simp
  next
    case False
    with a have "z < of_int n" by simp
    then have "\<lfloor>z\<rfloor> < n" by linarith
    then show ?thesis by (auto simp: roundEven_def Let_def)
  qed
qed

lemma roundEven_ge: "of_int n \<le> z \<Longrightarrow> n \<le> roundEven z"
proof -
  assume a: "of_int n \<le> z"
  then have "n \<le> \<lfloor>z\<rfloor>" by linarith
  then show ?thesis by (auto simp: roundEven_def Let_def)
qed

lemma roundEven_minus: "roundEven (- z) = - roundEven z"
proof (cases "z = of_int \<lfloor>z\<rfloor>")
  case True
  then obtain k where "z = of_int k" by metis
  then have "- z = of_int (- k)" by simp
  then show ?thesis unfolding \<open>z = of_int k\<close> by (simp only: roundEven_of_int)
next
  case False
  have b: "of_int \<lfloor>z\<rfloor> \<le> z" "z < of_int \<lfloor>z\<rfloor> + 1" by linarith+
  with False have "of_int \<lfloor>z\<rfloor> < z" by (auto simp: order.strict_iff_order)
  then have f: "\<lfloor>- z\<rfloor> = - \<lfloor>z\<rfloor> - 1" using b by linarith
  show ?thesis
    unfolding roundEven_def Let_def f by auto
qed


lemma toDouble_minus: "toDouble (- r) = jneg (toDouble r)"
  by (simp add: toDouble_def Let_def roundEven_minus)

text \<open>The shape of a rounded number.\<close>

lemma toDouble_unfold:
  assumes "r \<noteq> 0"
  shows "toDouble r =
     (if overflow \<le> \<bar>of_int (roundEven (r / 2 powi (exponent r - 52))) * 2 powi (exponent r - 52)\<bar>
      then (if 0 < r then PInf else NInf)
      else Fin (of_int (roundEven (r / 2 powi (exponent r - 52))) * 2 powi (exponent r - 52)))"
  using assms by (simp add: toDouble_def Let_def ulp_def)

lemma mantissa_bounds:
  assumes "0 < r"
  shows "0 \<le> roundEven (r / 2 powi (exponent r - 52))"
    and "roundEven (r / 2 powi (exponent r - 52)) \<le> 2 ^ 53"
    and "- 1022 < exponent r \<Longrightarrow> 2 ^ 52 \<le> roundEven (r / 2 powi (exponent r - 52))"
proof -
  define u where "u = (2::real) powi (exponent r - 52)"
  have u: "0 < u" by (simp add: u_def two_powi_pos)
  have "0 \<le> r / u" using assms u by simp
  then have "of_int 0 \<le> r / u" by simp
  then show "0 \<le> roundEven (r / 2 powi (exponent r - 52))"
    unfolding u_def [symmetric] by (rule roundEven_ge)
  have e1: "(2::real) powi (exponent r + 1) = 2 ^ 53 * u"
    using two_powi_add [of 53 "exponent r - 52"] by (simp add: u_def add.commute)
  have "r < 2 ^ 53 * u"
    using exponent_upper [of r] assms e1 by simp
  then have "r / u \<le> of_int (2 ^ 53)"
    using u by (simp add: field_simps)
  then show "roundEven (r / 2 powi (exponent r - 52)) \<le> 2 ^ 53"
    unfolding u_def [symmetric] by (rule roundEven_le)
  assume n: "- 1022 < exponent r"
  have e0: "(2::real) powi (exponent r) = 2 ^ 52 * u"
    using two_powi_add [of 52 "exponent r - 52"] by (simp add: u_def)
  have "2 ^ 52 * u \<le> r"
    using exponent_lower [of r] assms n e0 by simp
  then have "of_int (2 ^ 52) \<le> r / u"
    using u by (simp add: field_simps)
  then show "2 ^ 52 \<le> roundEven (r / 2 powi (exponent r - 52))"
    unfolding u_def [symmetric] by (rule roundEven_ge)
qed

text \<open>A number \<open>m \<cdot> 2\<^sup>j\<close> with \<open>m < 2\<^sup>5\<^sup>3\<close> and \<open>j \<ge> -1074\<close> is a multiple of the unit in the
  last place of every number of its binade or of a lower one.\<close>

lemma grid_multiple:
  assumes "e - 52 \<le> j"
  shows "of_int m * (2::real) powi j = of_int (m * 2 ^ nat (j - e + 52)) * 2 powi (e - 52)"
proof -
  have "(2::real) powi j = 2 powi (j - e + 52) * 2 powi (e - 52)"
    using two_powi_add [of "j - e + 52" "e - 52"] by simp
  also have "(2::real) powi (j - e + 52) = of_int (2 ^ nat (j - e + 52))"
    using assms by (simp add: two_powi_nat)
  finally show ?thesis by simp
qed

lemma below_binade:
  assumes "j < e - 52" and "m < 2 ^ 53"
  shows "of_int m * (2::real) powi j < 2 powi e"
proof (cases "0 < m")
  case False
  then have "of_int m * (2::real) powi j \<le> 0"
    using two_powi_pos [of j] by (simp add: mult_le_0_iff)
  then show ?thesis using two_powi_pos [of e] by linarith
next
  case True
  have "(2::real) powi j \<le> 2 powi (e - 53)"
    using assms(1) by (intro two_powi_mono) simp
  moreover have "(of_int m :: real) < 2 ^ 53"
    using assms(2) by (metis of_int_less_numeral_power_cancel_iff)
  ultimately have "of_int m * (2::real) powi j < 2 ^ 53 * 2 powi (e - 53)"
    using True two_powi_pos [of j] by (intro mult_less_le_imp_less) simp_all
  also have "\<dots> = 2 powi e"
    using two_powi_add [of 53 "e - 53"] by simp
  finally show ?thesis .
qed

lemma toDouble_pos_le:
  assumes r: "0 < r" and b: "r \<le> of_int m * 2 powi j" and m: "m < 2 ^ 53"
      and j: "- 1074 \<le> j" and fin: "of_int m * (2::real) powi j < overflow"
  shows "\<exists>q. toDouble r = Fin q \<and> 0 \<le> q \<and> q \<le> of_int m * 2 powi j"
proof -
  define e where "e = exponent r"
  define u where "u = (2::real) powi (e - 52)"
  define k where "k = roundEven (r / u)"
  have u: "0 < u" by (simp add: u_def two_powi_pos)
  have k0: "0 \<le> k"
    using mantissa_bounds(1) [OF r] by (simp add: k_def u_def e_def)
  have je: "e - 52 \<le> j"
  proof (rule ccontr)
    assume "\<not> e - 52 \<le> j"
    then have lt: "j < e - 52" by simp
    with j have "- 1022 < e" by simp
    then have "2 powi e \<le> r"
      using exponent_lower [of r] r by (simp add: e_def)
    moreover have "of_int m * (2::real) powi j < 2 powi e"
      using below_binade [OF lt m] .
    ultimately show False using b by linarith
  qed
  define n where "n = m * 2 ^ nat (j - e + 52)"
  have bn: "of_int m * (2::real) powi j = of_int n * u"
    using grid_multiple [OF je, of m] by (simp add: n_def u_def)
  have "r / u \<le> of_int n"
    using b bn u by (simp add: field_simps)
  then have "k \<le> n"
    unfolding k_def by (rule roundEven_le)
  then have "of_int k * u \<le> of_int n * u"
    using u by simp
  then have q: "of_int k * u \<le> of_int m * 2 powi j"
    using bn by simp
  have nn: "0 \<le> of_int k * u"
    using k0 u by simp
  have "\<not> overflow \<le> \<bar>of_int k * u\<bar>"
    using q nn fin by linarith
  then have "toDouble r = Fin (of_int k * u)"
    using toDouble_unfold [of r] r by (simp add: k_def u_def e_def)
  then show ?thesis
    using q nn by blast
qed

lemma toDouble_pos_ge:
  assumes m0: "0 < m" and b: "of_int m * 2 powi j \<le> r" and m: "m < 2 ^ 53" and j: "- 1074 \<le> j"
  shows "toDouble r = PInf \<or> (\<exists>q. toDouble r = Fin q \<and> of_int m * 2 powi j \<le> q)"
proof -
  have "0 < of_int m * (2::real) powi j"
    using m0 two_powi_pos [of j] by simp
  then have r: "0 < r"
    using b by linarith
  define e where "e = exponent r"
  define u where "u = (2::real) powi (e - 52)"
  define k where "k = roundEven (r / u)"
  have u: "0 < u" by (simp add: u_def two_powi_pos)
  have q: "of_int m * 2 powi j \<le> of_int k * u"
  proof (cases "e - 52 \<le> j")
    case True
    define n where "n = m * 2 ^ nat (j - e + 52)"
    have bn: "of_int m * (2::real) powi j = of_int n * u"
      using grid_multiple [OF True, of m] by (simp add: n_def u_def)
    have "of_int n \<le> r / u"
      using b bn u by (simp add: field_simps)
    then have "n \<le> k"
      unfolding k_def by (rule roundEven_ge)
    then have "of_int n * u \<le> of_int k * u"
      using u by simp
    then show ?thesis using bn by simp
  next
    case False
    then have lt: "j < e - 52" by simp
    with j have n: "- 1022 < e" by simp
    have "2 ^ 52 \<le> k"
      using mantissa_bounds(3) [OF r] n by (simp add: k_def u_def e_def)
    then have "(2::real) ^ 52 \<le> of_int k"
      by (metis of_int_le_iff of_int_numeral of_int_power)
    then have "2 ^ 52 * u \<le> of_int k * u"
      using u by simp
    moreover have "(2::real) powi e = 2 ^ 52 * u"
      using two_powi_add [of 52 "e - 52"] by (simp add: u_def)
    moreover have "of_int m * (2::real) powi j < 2 powi e"
      using below_binade [OF lt m] .
    ultimately show ?thesis by linarith
  qed
  have "toDouble r = (if overflow \<le> \<bar>of_int k * u\<bar> then PInf else Fin (of_int k * u))"
    using toDouble_unfold [of r] r by (simp add: k_def u_def e_def)
  then show ?thesis
    using q by auto
qed


lemma nonzero_of_ge: "2 powi e \<le> \<bar>r\<bar> \<Longrightarrow> r \<noteq> (0::real)"
proof
  assume "2 powi e \<le> \<bar>r\<bar>" and "r = 0"
  then have "(2::real) powi e \<le> 0" by simp
  with two_powi_pos [of e] show False by linarith
qed

lemma toDouble_zero [simp]: "toDouble 0 = Fin 0"
  by (simp add: toDouble_def)

lemma overflow_powi: "overflow = 2 powi 1024"
  by (simp add: overflow_def)

lemma below_overflow: "j \<le> 1023 \<Longrightarrow> (2::real) powi j < overflow"
  unfolding overflow_powi by (rule two_powi_strict_mono) simp

lemma toDouble_abs_le:
  assumes b: "\<bar>r\<bar> \<le> of_int m * 2 powi j" and m: "m < 2 ^ 53"
      and j: "- 1074 \<le> j" and fin: "of_int m * (2::real) powi j < overflow"
  shows "\<exists>q. toDouble r = Fin q \<and> \<bar>q\<bar> \<le> of_int m * 2 powi j"
proof -
  consider "r = 0" | "0 < r" | "r < 0" by linarith
  then show ?thesis
  proof cases
    case 1
    with b show ?thesis by simp
  next
    case 2
    then have "r \<le> of_int m * 2 powi j" using b by simp
    from toDouble_pos_le [OF 2 this m j fin] show ?thesis by auto
  next
    case 3
    then have p: "0 < - r" and "- r \<le> of_int m * 2 powi j" using b by simp_all
    from toDouble_pos_le [OF this m j fin]
    obtain q where q: "toDouble (- r) = Fin q" "0 \<le> q" "q \<le> of_int m * 2 powi j" by blast
    have "toDouble r = jneg (toDouble (- r))"
      using toDouble_minus [of "- r"] by simp
    then have "toDouble r = Fin (- q)" using q(1) by simp
    then show ?thesis using q(2,3) by simp
  qed
qed

lemma toDouble_exact_pos:
  assumes "0 < m" and "m < 2 ^ 53" and "- 1074 \<le> j" and "of_int m * (2::real) powi j < overflow"
  shows "toDouble (of_int m * 2 powi j) = Fin (of_int m * 2 powi j)"
proof -
  have p: "0 < of_int m * (2::real) powi j"
    using assms(1) two_powi_pos [of j] by simp
  obtain q where q: "toDouble (of_int m * 2 powi j) = Fin q" "q \<le> of_int m * 2 powi j"
    using toDouble_pos_le [OF p order_refl assms(2,3,4)] by blast
  have "of_int m * 2 powi j \<le> q"
    using toDouble_pos_ge [OF assms(1) order_refl assms(2,3)] q(1) by simp
  with q show ?thesis by simp
qed

lemma toDouble_exact:
  assumes "\<bar>m\<bar> < 2 ^ 53" and "- 1074 \<le> j" and "of_int \<bar>m\<bar> * (2::real) powi j < overflow"
  shows "toDouble (of_int m * 2 powi j) = Fin (of_int m * 2 powi j)"
proof -
  consider "m = 0" | "0 < m" | "m < 0" by linarith
  then show ?thesis
  proof cases
    case 1
    then show ?thesis by simp
  next
    case 2
    then show ?thesis using toDouble_exact_pos [of m j] assms by simp
  next
    case 3
    then have "toDouble (of_int (- m) * 2 powi j) = Fin (of_int (- m) * 2 powi j)"
      using toDouble_exact_pos [of "- m" j] assms by simp
    then have "toDouble (- (of_int m * 2 powi j)) = Fin (- (of_int m * 2 powi j))"
      by simp
    then show ?thesis
      using toDouble_minus [of "- (of_int m * 2 powi j)"] by simp
  qed
qed

text \<open>The result of a rounding is a double: rounding it again changes nothing.\<close>

lemma toDouble_idem_pos:
  assumes r: "0 < r" and q: "toDouble r = Fin q"
  shows "toDouble q = Fin q"
proof -
  define e where "e = exponent r"
  define k where "k = roundEven (r / 2 powi (e - 52))"
  have f: "\<not> overflow \<le> \<bar>of_int k * 2 powi (e - 52)\<bar>" and qk: "q = of_int k * 2 powi (e - 52)"
    using toDouble_unfold [of r] r q by (auto simp: k_def e_def split: if_splits)
  have k0: "0 \<le> k" and k1: "k \<le> 2 ^ 53"
    using mantissa_bounds(1,2) [OF r] by (simp_all add: k_def e_def)
  have e: "- 1022 \<le> e"
    by (simp add: e_def exponent_ge)
  show ?thesis
  proof (cases "k = 2 ^ 53")
    case False
    with k1 have "\<bar>k\<bar> < 2 ^ 53" using k0 by simp
    moreover have "of_int \<bar>k\<bar> * (2::real) powi (e - 52) < overflow"
      using f k0 two_powi_pos [of "e - 52"] by (simp add: abs_mult)
    ultimately show ?thesis
      unfolding qk using e by (intro toDouble_exact) simp_all
  next
    case True
    have "(2::real) powi (e + 1) = 2 ^ 53 * 2 powi (e - 52)"
      using two_powi_add [of 53 "e - 52"] by (simp add: add.commute)
    then have q1: "q = of_int 1 * 2 powi (e + 1)"
      using qk True by simp
    have "of_int \<bar>1\<bar> * (2::real) powi (e + 1) < overflow"
      using f q1 qk two_powi_pos [of "e + 1"] by simp
    then show ?thesis
      unfolding q1 using e by (intro toDouble_exact) simp_all
  qed
qed

lemma toDouble_idem:
  assumes "toDouble r = Fin q"
  shows "toDouble q = Fin q"
proof -
  consider "r = 0" | "0 < r" | "r < 0" by linarith
  then show ?thesis
  proof cases
    case 1
    with assms show ?thesis by auto
  next
    case 2
    then show ?thesis using assms by (rule toDouble_idem_pos)
  next
    case 3
    have "toDouble (- r) = Fin (- q)"
      using toDouble_minus [of r] assms by simp
    then have "toDouble (- q) = Fin (- q)"
      using 3 by (intro toDouble_idem_pos [of "- r"]) simp_all
    then show ?thesis
      using toDouble_minus [of "- q"] by simp
  qed
qed

text \<open>The smallest positive double is \<open>2\<^sup>-\<^sup>1\<^sup>0\<^sup>7\<^sup>4\<close>.\<close>

lemma toDouble_min_pos:
  assumes r: "0 < r" and q: "toDouble r = Fin q"
  shows "q = 0 \<or> 2 powi (- 1074) \<le> q"
proof -
  define e where "e = exponent r"
  define k where "k = roundEven (r / 2 powi (e - 52))"
  have qk: "q = of_int k * 2 powi (e - 52)"
    using toDouble_unfold [of r] r q by (auto simp: k_def e_def split: if_splits)
  have k0: "0 \<le> k"
    using mantissa_bounds(1) [OF r] by (simp add: k_def e_def)
  have u: "(2::real) powi (- 1074) \<le> 2 powi (e - 52)"
    using exponent_ge [of r] by (intro two_powi_mono) (simp add: e_def)
  show ?thesis
  proof (cases "k = 0")
    case True
    then show ?thesis by (simp add: qk)
  next
    case False
    with k0 have "1 \<le> k" by simp
    then have "(1::real) \<le> of_int k" by simp
    then have "1 * (2::real) powi (e - 52) \<le> of_int k * 2 powi (e - 52)"
      using two_powi_pos [of "e - 52"] by (intro mult_right_mono) simp_all
    then have "(2::real) powi (e - 52) \<le> q"
      unfolding qk by (simp only: mult_1)
    with u have "(2::real) powi (- 1074) \<le> q"
      by (rule order_trans)
    then show ?thesis by (rule disjI2)
  qed
qed

lemma toDouble_min:
  assumes "toDouble r = Fin q"
  shows "q = 0 \<or> 2 powi (- 1074) \<le> \<bar>q\<bar>"
proof -
  consider "r = 0" | "0 < r" | "r < 0" by linarith
  then show ?thesis
  proof cases
    case 1
    with assms show ?thesis by auto
  next
    case 2
    then show ?thesis using toDouble_min_pos [OF 2 assms] by auto
  next
    case 3
    have "toDouble (- r) = Fin (- q)"
      using toDouble_minus [of r] assms by simp
    then show ?thesis
      using toDouble_min_pos [of "- r" "- q"] 3 by auto
  qed
qed

text \<open>The relative error of a rounding in the normal range is at most \<open>2\<^sup>-\<^sup>5\<^sup>3\<close>.\<close>

lemma toDouble_relerr:
  assumes lo: "2 powi (- 1022) \<le> \<bar>r\<bar>" and hi: "\<bar>r\<bar> \<le> 2 powi 1023"
  shows "\<exists>q. toDouble r = Fin q \<and> \<bar>q - r\<bar> \<le> \<bar>r\<bar> / 2 ^ 53"
proof -
  have r: "r \<noteq> 0" using lo by (rule nonzero_of_ge)
  define e where "e = exponent r"
  define u where "u = (2::real) powi (e - 52)"
  define k where "k = roundEven (r / u)"
  have u: "0 < u" by (simp add: u_def two_powi_pos)
  obtain q where q: "toDouble r = Fin q"
    using toDouble_abs_le [of r 1 1023] hi below_overflow [of 1023] by auto
  have qk: "q = of_int k * u"
    using toDouble_unfold [of r] r q by (auto simp: k_def u_def e_def split: if_splits)
  have "\<bar>of_int k - r / u\<bar> \<le> 1 / 2"
    unfolding k_def by (rule roundEven_near)
  then have "\<bar>of_int k - r / u\<bar> * u \<le> 1 / 2 * u"
    using u by (intro mult_right_mono) simp_all
  moreover have "\<bar>of_int k - r / u\<bar> * u = \<bar>(of_int k - r / u) * u\<bar>"
    using u by (simp add: abs_mult)
  moreover have "(of_int k - r / u) * u = q - r"
    using u by (simp add: qk field_simps)
  ultimately have d: "\<bar>q - r\<bar> \<le> u / 2" by simp
  have "(2::real) powi e = 2 ^ 52 * u"
    using two_powi_add [of 52 "e - 52"] by (simp add: u_def)
  moreover have "2 powi e \<le> \<bar>r\<bar>"
    using exponent_normal [OF lo] by (simp add: e_def)
  ultimately have "u / 2 \<le> \<bar>r\<bar> / 2 ^ 53" by simp
  with d q show ?thesis by auto
qed

text \<open>Rounding a number whose binade is known.\<close>

lemma toDouble_eval:
  assumes "2 powi e \<le> \<bar>r\<bar>" and "\<bar>r\<bar> < 2 powi (e + 1)" and "- 1022 \<le> e" and "e \<le> 1022"
  shows "toDouble r = Fin (of_int (roundEven (r / 2 powi (e - 52))) * 2 powi (e - 52))"
proof -
  have r: "r \<noteq> 0" using assms(1) by (rule nonzero_of_ge)
  have e: "exponent r = e" using assms(1,2,3) by (rule exponent_eqI)
  have "\<bar>r\<bar> \<le> of_int 1 * 2 powi (e + 1)" using assms(2) by simp
  moreover have "of_int 1 * (2::real) powi (e + 1) < overflow"
    using below_overflow [of "e + 1"] assms(4) by simp
  ultimately obtain q where q: "toDouble r = Fin q"
    using toDouble_abs_le [of r 1 "e + 1"] assms(3) by auto
  show ?thesis
    using toDouble_unfold [of r] r q by (auto simp: e split: if_splits)
qed

lemma toDouble_eval_subnormal:
  assumes "r \<noteq> 0" and "\<bar>r\<bar> < 2 powi (- 1022)"
  shows "toDouble r = Fin (of_int (roundEven (r / 2 powi (- 1074))) * 2 powi (- 1074))"
proof -
  have e: "exponent r = - 1022"
  proof (rule ccontr)
    assume "exponent r \<noteq> - 1022"
    then have n: "- 1022 < exponent r" using exponent_ge [of r] by simp
    then have "2 powi (exponent r) \<le> \<bar>r\<bar>" using exponent_lower [OF assms(1)] by simp
    moreover have "(2::real) powi (- 1022) \<le> 2 powi (exponent r)"
      using n by (intro two_powi_mono) simp
    ultimately show False using assms(2) by linarith
  qed
  have "\<bar>r\<bar> \<le> of_int 1 * 2 powi (- 1022)" using assms(2) by simp
  moreover have "of_int 1 * (2::real) powi (- 1022) < overflow"
    using below_overflow [of "- 1022"] by simp
  ultimately obtain q where q: "toDouble r = Fin q"
    using toDouble_abs_le [of r 1 "- 1022"] by auto
  show ?thesis
    using toDouble_unfold [of r] assms(1) q by (auto simp: e split: if_splits)
qed

text \<open>The rounding of a quotient of two integers, for computing with given numbers.\<close>

lemma roundEven_div:
  assumes "0 < b"
  shows "roundEven (of_int a / of_int b) =
     (if 2 * (a mod b) < b then a div b
      else if b < 2 * (a mod b) then a div b + 1
      else if even (a div b) then a div b else a div b + 1)"
proof -
  have fl: "\<lfloor>(of_int a :: real) / of_int b\<rfloor> = a div b"
    by (simp add: floor_divide_of_int_eq)
  have "a = b * (a div b) + a mod b"
    by simp
  then have "(of_int a :: real) = of_int b * of_int (a div b) + of_int (a mod b)"
    by (metis of_int_add of_int_mult)
  then have fr: "(of_int a :: real) / of_int b - of_int (a div b) = of_int (a mod b) / of_int b"
    using assms by (simp add: field_simps)
  have c1: "(of_int (a mod b) / (of_int b :: real) < 1 / 2) = (2 * (a mod b) < b)"
    using assms by (simp add: field_simps) (metis of_int_less_iff of_int_mult of_int_numeral mult.commute)
  have c2: "(1 / 2 < of_int (a mod b) / (of_int b :: real)) = (b < 2 * (a mod b))"
    using assms by (simp add: field_simps) (metis of_int_less_iff of_int_mult of_int_numeral mult.commute)
  show ?thesis
    unfolding roundEven_def Let_def fl fr c1 c2 by simp
qed

lemma roundEven_eval:
  "roundEven (numeral a / numeral b) =
     (if 2 * (numeral a mod numeral b :: int) < numeral b then numeral a div numeral b
      else if numeral b < 2 * (numeral a mod numeral b :: int) then numeral a div numeral b + 1
      else if even (numeral a div numeral b :: int) then numeral a div numeral b
      else numeral a div numeral b + 1)"
  using roundEven_div [of "numeral b" "numeral a"] by (simp only: of_int_numeral zero_less_numeral simp_thms)

section \<open>Smoothing in double precision\<close>

lemma fadd_Fin: "fadd (Fin a) (Fin b) = toDouble (a + b)"
  by (simp add: fadd_def)

lemma fsub_Fin: "fsub (Fin a) (Fin b) = toDouble (a - b)"
  by (simp add: fsub_def jsub_def)

lemma fmul_Fin: "fmul (Fin a) (Fin b) = toDouble (a * b)"
  by (simp add: fmul_def)

lemma fdiv_Fin: "b \<noteq> 0 \<Longrightarrow> fdiv (Fin a) (Fin b) = toDouble (a / b)"
  by (simp add: fdiv_def)

lemma handleGazeData_fp_keeps:
  "isRunning (fst (handleGazeData_fp sw sh now t d)) = isRunning t"
  "onGazeUpdate (fst (handleGazeData_fp sw sh now t d)) = onGazeUpdate t"
  "calibrationMatrix (fst (handleGazeData_fp sw sh now t d)) = calibrationMatrix t"
  by (auto simp: handleGazeData_fp_def Let_def split: option.splits prod.splits)

lemma handleGazeData_fp_feeds:
  assumes "isRunning t" and "feedsPoint_fp (calibrationMatrix t) p (sw, sh, now, d)"
  shows "gazeHistory (fst (handleGazeData_fp sw sh now t d)) = pushGaze (gazeHistory t) p"
    and "onGazeUpdate t \<Longrightarrow>
           \<exists>g. snd (handleGazeData_fp sw sh now t d) = [g]
              \<and> x g = smoothedX_fp (pushGaze (gazeHistory t) p)
              \<and> y g = smoothedY_fp (pushGaze (gazeHistory t) p)"
  using assms
  by (auto simp: handleGazeData_fp_def feedsPoint_fp_def gazePoint_fp_def Let_def
      split: option.splits prod.splits)

lemma runFrames_fp_Cons_fst:
  "fst (runFrames_fp t ((sw, sh, now, d) # fs)) = fst (runFrames_fp (fst (handleGazeData_fp sw sh now t d)) fs)"
  by (simp add: Let_def case_prod_beta)

lemma runFrames_fp_Cons_snd:
  "snd (runFrames_fp t ((sw, sh, now, d) # fs)) =
     snd (handleGazeData_fp sw sh now t d) @ snd (runFrames_fp (fst (handleGazeData_fp sw sh now t d)) fs)"
  by (simp add: Let_def case_prod_beta)

text \<open>A run of frames that all pass the gates, with the clamped points \<open>ps\<close>: the buffer
  afterwards, and the last point handed to the callback.\<close>

lemma runFrames_fp_feeds:
  assumes "list_all2 (feedsPoint_fp m) ps fs"
      and "isRunning t" and "onGazeUpdate t" and "calibrationMatrix t = m"
  shows "gazeHistory (fst (runFrames_fp t fs)) = foldl pushGaze (gazeHistory t) ps
       \<and> length (snd (runFrames_fp t fs)) = length fs
       \<and> (fs \<noteq> [] \<longrightarrow>
            x (last (snd (runFrames_fp t fs))) = smoothedX_fp (foldl pushGaze (gazeHistory t) ps)
          \<and> y (last (snd (runFrames_fp t fs))) = smoothedY_fp (foldl pushGaze (gazeHistory t) ps))"
  using assms
proof (induction ps fs arbitrary: t rule: list_all2_induct)
  case Nil
  show ?case by simp
next
  case (Cons p ps f fs)
  obtain sw sh now d where f: "f = (sw, sh, now, d)" by (cases f) auto
  let ?t1 = "fst (handleGazeData_fp sw sh now t d)"
  have fp: "feedsPoint_fp (calibrationMatrix t) p (sw, sh, now, d)"
    using Cons.hyps(1) Cons.prems(3) f by simp
  have h1: "gazeHistory ?t1 = pushGaze (gazeHistory t) p"
    using handleGazeData_fp_feeds(1) [OF Cons.prems(1) fp] .
  obtain g where g: "snd (handleGazeData_fp sw sh now t d) = [g]"
      "x g = smoothedX_fp (pushGaze (gazeHistory t) p)"
      "y g = smoothedY_fp (pushGaze (gazeHistory t) p)"
    using handleGazeData_fp_feeds(2) [OF Cons.prems(1) fp Cons.prems(2)] by blast
  have k: "isRunning ?t1" "onGazeUpdate ?t1" "calibrationMatrix ?t1 = m"
    using Cons.prems handleGazeData_fp_keeps [of sw sh now t d] by simp_all
  note ih = Cons.IH [OF k]
  show ?case
  proof (cases "fs = []")
    case True
    then have "ps = []" using Cons.hyps(2) by simp
    with True g show ?thesis
      by (simp add: f h1 runFrames_fp_Cons_fst runFrames_fp_Cons_snd del: runFrames_fp.simps(2))
  next
    case False
    then have ne: "snd (runFrames_fp ?t1 fs) \<noteq> []"
      using ih by auto
    show ?thesis
      using ih False ne g(1)
      by (simp add: f h1 runFrames_fp_Cons_fst runFrames_fp_Cons_snd del: runFrames_fp.simps(2))
  qed
qed

text \<open>The buffer drops its oldest point only when it holds more than 8: its last 8
  points are the last 8 that were pushed.\<close>

lemma slice_last_snoc: "0 < k \<Longrightarrow> slice_last k (hist @ [p]) = slice_last (k - 1) hist @ [p]"
  by (cases k) (simp_all add: slice_last_def Suc_diff_le)

lemma slice_last_tl: "k < length hist \<Longrightarrow> slice_last k (tl hist) = slice_last k hist"
  by (cases hist) (simp_all add: slice_last_def Suc_diff_le)

lemma slice_last_pushGaze: "k \<le> 8 \<Longrightarrow> slice_last k (pushGaze hist p) = slice_last k (hist @ [p])"
  by (simp add: pushGaze_def Let_def SMOOTHING_WINDOW_X_def SMOOTHING_WINDOW_Y_def slice_last_tl)

lemma slice_last_buffer: "k \<le> 8 \<Longrightarrow> slice_last k (foldl pushGaze hist ps) = slice_last k (hist @ ps)"
proof (induction ps arbitrary: k rule: rev_induct)
  case Nil
  show ?case by simp
next
  case (snoc p ps)
  show ?case
  proof (cases "k = 0")
    case True
    then show ?thesis by (simp add: slice_last_def)
  next
    case False
    then have k: "0 < k" by simp
    have "slice_last k (foldl pushGaze hist (ps @ [p])) = slice_last k (foldl pushGaze hist ps @ [p])"
      using snoc.prems by (simp add: slice_last_pushGaze)
    also have "\<dots> = slice_last (k - 1) (foldl pushGaze hist ps) @ [p]"
      using k by (rule slice_last_snoc)
    also have "\<dots> = slice_last (k - 1) (hist @ ps) @ [p]"
      using snoc.IH [of "k - 1"] snoc.prems by simp
    also have "\<dots> = slice_last k ((hist @ ps) @ [p])"
      using k by (rule slice_last_snoc [symmetric])
    finally show ?thesis by simp
  qed
qed

lemma length_slice_last: "length (slice_last k hist) = min k (length hist)"
  by (simp add: slice_last_def)

lemma map_slice_last: "map f (slice_last k hist) = drop (length hist - k) (map f hist)"
  by (simp add: slice_last_def drop_map)

lemma smoothedX_fp_buffer:
  "smoothedX_fp (foldl pushGaze hist ps) = windowMean 8 (map x (hist @ ps))"
proof -
  define pushed where "pushed = hist @ ps"
  have "slice_last 8 (foldl pushGaze hist ps) = slice_last 8 pushed"
    unfolding pushed_def by (rule slice_last_buffer) simp
  then have "smoothedX_fp (foldl pushGaze hist ps) = windowMean 8 (map x pushed)"
    by (simp add: smoothedX_fp_def windowMean_def SMOOTHING_WINDOW_X_def fsum_def Let_def
        length_slice_last map_slice_last)
  then show ?thesis by (simp add: pushed_def)
qed

lemma smoothedY_fp_buffer:
  "smoothedY_fp (foldl pushGaze hist ps) = windowMean 4 (map y (hist @ ps))"
proof -
  define pushed where "pushed = hist @ ps"
  have "slice_last 4 (foldl pushGaze hist ps) = slice_last 4 pushed"
    unfolding pushed_def by (rule slice_last_buffer) simp
  then have "smoothedY_fp (foldl pushGaze hist ps) = windowMean 4 (map y pushed)"
    by (simp add: smoothedY_fp_def windowMean_def SMOOTHING_WINDOW_Y_def fsum_def Let_def
        length_slice_last map_slice_last)
  then show ?thesis by (simp add: pushed_def)
qed

text \<open>The sum of \<open>n \<le> 8\<close> copies of a number \<open>c\<close> in the normal range, from the left: every
  addition rounds with a relative error of at most \<open>2\<^sup>-\<^sup>5\<^sup>3\<close>.\<close>

lemma fadd_step:
  assumes s: "\<bar>s - k * c\<bar> \<le> a * c" and k: "0 \<le> k" "k \<le> 7" and a: "0 \<le> a" "a \<le> 1 / 2"
      and c: "1 / 2 ^ 1000 \<le> c" "c \<le> 2 ^ 1000"
  shows "\<exists>s'. fadd (Fin s) (Fin c) = Fin s' \<and> \<bar>s' - (k + 1) * c\<bar> \<le> (a + (k + 2) / 2 ^ 53) * c"
proof -
  have "(0::real) < 1 / 2 ^ 1000" by simp
  then have c0: "0 < c" using c(1) by linarith
  define X where "X = k * c"
  define Y where "Y = a * c"
  have X: "0 \<le> X" "X \<le> 7 * c"
    using k c0 by (simp_all add: X_def mult_right_mono)
  have Y: "0 \<le> Y" "Y \<le> c / 2"
    using a c0 mult_right_mono [of a "1 / 2" c] by (simp_all add: Y_def)
  have sX: "\<bar>s - X\<bar> \<le> Y" using s by (simp add: X_def Y_def)
  define w where "w = s + c"
  have w: "c / 2 \<le> w" "w \<le> X + c + Y" "w \<le> 9 * c"
    using sX X Y by (simp_all add: w_def abs_le_iff)
  have lo: "2 powi (- 1022) \<le> \<bar>w\<bar>"
  proof -
    have "(2::real) powi (- 1022) \<le> 2 powi (- 1001)"
      by (rule two_powi_mono) simp
    also have "(2::real) powi (- 1001) = (1 / 2 ^ 1000) / 2"
      by (simp add: power_int_minus_divide)
    also have "\<dots> \<le> c / 2" using c(1) by simp
    finally show ?thesis using w(1) c0 by linarith
  qed
  have hi: "\<bar>w\<bar> \<le> 2 powi 1023"
  proof -
    have "\<bar>w\<bar> \<le> 9 * c" using w c0 by simp
    also have "\<dots> \<le> 16 * 2 ^ 1000" using c(2) by simp
    also have "\<dots> = (2::real) powi 1004" by simp
    also have "\<dots> \<le> 2 powi 1023" by (rule two_powi_mono) simp
    finally show ?thesis .
  qed
  obtain s' where s': "toDouble w = Fin s'" "\<bar>s' - w\<bar> \<le> \<bar>w\<bar> / 2 ^ 53"
    using toDouble_relerr [OF lo hi] by blast
  define E where "E = (X + 2 * c) / 2 ^ 53"
  have "\<bar>w\<bar> \<le> X + 2 * c"
    using w Y c0 by linarith
  then have "\<bar>w\<bar> / 2 ^ 53 \<le> E"
    unfolding E_def by (rule divide_right_mono) simp
  then have e: "\<bar>s' - w\<bar> \<le> E" using s'(2) by linarith
  have "\<bar>s' - (X + c)\<bar> \<le> Y + E"
    using e sX unfolding w_def by linarith
  moreover have "Y + E = (a + (k + 2) / 2 ^ 53) * c"
    by (simp add: E_def X_def Y_def algebra_simps)
  moreover have "X + c = (k + 1) * c"
    by (simp add: X_def algebra_simps)
  ultimately have "\<bar>s' - (k + 1) * c\<bar> \<le> (a + (k + 2) / 2 ^ 53) * c" by (simp only:)
  then show ?thesis
    using s'(1) by (auto simp: fadd_Fin w_def)
qed


lemma fsum_constant_near:
  assumes c: "1 / 2 ^ 1000 \<le> c" "c \<le> 2 ^ 1000" and n: "n \<le> 8"
  shows "\<exists>s. foldl fadd (Fin 0) (replicate n (Fin c)) = Fin s
           \<and> \<bar>s - real n * c\<bar> \<le> real (n * (n + 3)) / 2 ^ 54 * c"
  using n
proof (induction n)
  case 0
  show ?case by simp
next
  case (Suc n)
  then obtain s where s: "foldl fadd (Fin 0) (replicate n (Fin c)) = Fin s"
      "\<bar>s - real n * c\<bar> \<le> real (n * (n + 3)) / 2 ^ 54 * c"
    by auto
  have n7: "n \<le> 7" using Suc.prems by simp
  then have "n * (n + 3) \<le> 7 * 10"
    by (intro mult_le_mono) simp_all
  then have "real (n * (n + 3)) \<le> real (7 * 10)"
    by (rule of_nat_mono)
  then have a: "real (n * (n + 3)) / 2 ^ 54 \<le> 1 / 2"
    by simp
  obtain s' where s': "fadd (Fin s) (Fin c) = Fin s'"
      "\<bar>s' - (real n + 1) * c\<bar> \<le> (real (n * (n + 3)) / 2 ^ 54 + (real n + 2) / 2 ^ 53) * c"
    using fadd_step [OF s(2) _ _ _ a c] n7 by auto
  have "(real n + 2) / 2 ^ 53 = (2 * (real n + 2)) / 2 ^ 54"
    by simp
  moreover have "real (n * (n + 3)) + 2 * (real n + 2) = real (Suc n * (Suc n + 3))"
    by (simp add: algebra_simps)
  ultimately have e1: "real (n * (n + 3)) / 2 ^ 54 + (real n + 2) / 2 ^ 53 = real (Suc n * (Suc n + 3)) / 2 ^ 54"
    by (simp only: add_divide_distrib [symmetric])
  have e2: "real (Suc n) = real n + 1" by simp
  have "\<bar>s' - real (Suc n) * c\<bar> \<le> real (Suc n * (Suc n + 3)) / 2 ^ 54 * c"
    using s'(2) by (simp only: e1 [symmetric] e2)
  moreover have "foldl fadd (Fin 0) (replicate (Suc n) (Fin c)) = Fin s'"
    using s(1) s'(1) by (simp add: replicate_append_same [symmetric])
  ultimately show ?case by blast
qed

lemma fsum_zeros: "foldl fadd (Fin 0) (replicate n (Fin 0)) = Fin 0"
  by (induction n) (simp_all add: replicate_append_same [symmetric] fadd_Fin)

text \<open>The mean of the last \<open>k \<le> 8\<close> values when these are all the same number \<open>c\<close>.\<close>

lemma windowMean_constant_near:
  assumes k: "0 < k" "k \<le> 8" "k \<le> n"
      and c: "c = 0 \<or> 1 / 2 ^ 1000 \<le> c \<and> c \<le> 2 ^ 1000"
  shows "\<exists>v. windowMean k (pre @ replicate n (Fin c)) = Fin v \<and> \<bar>v - c\<bar> \<le> c / 2 ^ 50"
proof -
  have d: "drop (length (pre @ replicate n (Fin c)) - k) (pre @ replicate n (Fin c)) = replicate k (Fin c)"
    using k(3) by simp
  have m: "min k (length (pre @ replicate n (Fin c))) = k"
    using k(3) by simp
  have w: "windowMean k (pre @ replicate n (Fin c))
             = fdiv (foldl fadd (Fin 0) (replicate k (Fin c))) (Fin (real k))"
    unfolding windowMean_def d m ..
  show ?thesis
  proof (cases "c = 0")
    case True
    have "fdiv (foldl fadd (Fin 0) (replicate k (Fin 0))) (Fin (real k)) = Fin 0"
      using k(1) by (simp add: fsum_zeros fdiv_Fin)
    then have "windowMean k (pre @ replicate n (Fin c)) = Fin 0"
      unfolding w using True by simp
    then show ?thesis
      using True by simp
  next
    case False
    with c have c1: "1 / 2 ^ 1000 \<le> c" and c2: "c \<le> 2 ^ 1000" by simp_all
    have "(0::real) < 1 / 2 ^ 1000" by simp
    then have c0: "0 < c" using c1 by linarith
    obtain s where s: "foldl fadd (Fin 0) (replicate k (Fin c)) = Fin s"
        "\<bar>s - real k * c\<bar> \<le> real (k * (k + 3)) / 2 ^ 54 * c"
      using fsum_constant_near [OF c1 c2 k(2)] by blast
    define K where "K = real k"
    have K: "1 \<le> K" "K \<le> 8" using k by (simp_all add: K_def)
    define r where "r = s / K"
    have "r - c = (s - K * c) / K"
      using K by (simp add: r_def field_simps)
    then have "\<bar>r - c\<bar> = \<bar>s - K * c\<bar> / K"
      using K by (simp add: abs_divide)
    also have "\<dots> \<le> (real (k * (k + 3)) / 2 ^ 54 * c) / K"
      using s(2) K by (intro divide_right_mono) (simp_all add: K_def)
    also have "\<dots> = (K + 3) / 2 ^ 54 * c"
      using K by (simp add: K_def field_simps)
    also have "\<dots> \<le> 11 / 2 ^ 54 * c"
      using K c0 by (intro mult_right_mono divide_right_mono) simp_all
    finally have rc: "\<bar>r - c\<bar> \<le> 11 / 2 ^ 54 * c" .
    define B where "B = 11 / 2 ^ 54 * c"
    have B: "\<bar>r - c\<bar> \<le> B" "B \<le> c / 2" "B + 4 / 2 ^ 54 * c \<le> c / 2 ^ 50"
      using rc c0 by (simp_all add: B_def)
    have r1: "c / 2 \<le> r" and r2: "r \<le> 2 * c"
      using B(1,2) c0 by linarith+
    have lo: "2 powi (- 1022) \<le> \<bar>r\<bar>"
    proof -
      have "(2::real) powi (- 1022) \<le> 2 powi (- 1001)"
        by (rule two_powi_mono) simp
      also have "(2::real) powi (- 1001) = (1 / 2 ^ 1000) / 2"
        by (simp add: power_int_minus_divide)
      also have "\<dots> \<le> c / 2" using c1 by simp
      finally show ?thesis using r1 by linarith
    qed
    have hi: "\<bar>r\<bar> \<le> 2 powi 1023"
    proof -
      have "\<bar>r\<bar> \<le> 2 * c" using r1 r2 c0 by linarith
      also have "\<dots> \<le> 2 * 2 ^ 1000" using c2 by simp
      also have "\<dots> = (2::real) powi 1001" by simp
      also have "\<dots> \<le> 2 powi 1023" by (rule two_powi_mono) simp
      finally show ?thesis .
    qed
    obtain v where v: "toDouble r = Fin v" "\<bar>v - r\<bar> \<le> \<bar>r\<bar> / 2 ^ 53"
      using toDouble_relerr [OF lo hi] by blast
    have "\<bar>r\<bar> \<le> 2 * c" using r1 r2 c0 by linarith
    then have "\<bar>r\<bar> / 2 ^ 53 \<le> 2 * c / 2 ^ 53"
      by (rule divide_right_mono) simp
    also have "2 * c / 2 ^ 53 = 4 / 2 ^ 54 * c" by simp
    finally have "\<bar>v - r\<bar> \<le> 4 / 2 ^ 54 * c" using v(2) by linarith
    then have "\<bar>v - c\<bar> \<le> c / 2 ^ 50"
      using B(1,3) by linarith
    moreover have "windowMean k (pre @ replicate n (Fin c)) = Fin v"
      using v(1) K by (simp add: w s(1) fdiv_Fin r_def K_def)
    ultimately show ?thesis by blast
  qed
qed

lemma map_constant: "list_all (\<lambda>p. f p = c) ps \<Longrightarrow> map f ps = replicate (length ps) c"
  by (induction ps) simp_all

text \<open>
  C5 (as amended), in double arithmetic. For a running estimator with the callback and a run
  of frames that all pass the gates: the x handed out at the last frame is the mean of the
  most recent 8 clamped x coordinates, those in the buffer before the run followed by those
  of the frames of the run (of all of them while there are fewer than 8); the y is the mean
  of the most recent 4 clamped y coordinates; each mean is the sum from the left divided by
  the count, and 4 < 8. When 8 frames or more pass in a row with one clamped x, which is 0
  or lies between \<open>2\<^sup>-\<^sup>1\<^sup>0\<^sup>0\<^sup>0\<close> and \<open>2\<^sup>1\<^sup>0\<^sup>0\<^sup>0\<close>, the smoothed x differs from it by at most
  \<open>2\<^sup>-\<^sup>5\<^sup>0\<close> times its value, and likewise the smoothed y after 4 frames or more with one
  clamped y. The additions round, so the output need not be equal to the constant.
\<close>

theorem smoothing_window_mean:
  assumes "isRunning t" and "onGazeUpdate t" and "fs \<noteq> []"
      and "list_all2 (feedsPoint_fp (calibrationMatrix t)) ps fs"
  shows "SMOOTHING_WINDOW_X = 8 \<and> SMOOTHING_WINDOW_Y = 4 \<and> SMOOTHING_WINDOW_Y < SMOOTHING_WINDOW_X
       \<and> length (snd (runFrames_fp t fs)) = length fs
       \<and> x (last (snd (runFrames_fp t fs))) = windowMean 8 (map x (gazeHistory t @ ps))
       \<and> y (last (snd (runFrames_fp t fs))) = windowMean 4 (map y (gazeHistory t @ ps))
       \<and> (8 \<le> length fs \<and> list_all (\<lambda>p. x p = Fin cx) ps
            \<and> (cx = 0 \<or> 1 / 2 ^ 1000 \<le> cx \<and> cx \<le> 2 ^ 1000)
          \<longrightarrow> (\<exists>v. x (last (snd (runFrames_fp t fs))) = Fin v \<and> \<bar>v - cx\<bar> \<le> cx / 2 ^ 50))
       \<and> (4 \<le> length fs \<and> list_all (\<lambda>p. y p = Fin cy) ps
            \<and> (cy = 0 \<or> 1 / 2 ^ 1000 \<le> cy \<and> cy \<le> 2 ^ 1000)
          \<longrightarrow> (\<exists>v. y (last (snd (runFrames_fp t fs))) = Fin v \<and> \<bar>v - cy\<bar> \<le> cy / 2 ^ 50))"
proof -
  note run = runFrames_fp_feeds [OF assms(4,1,2) refl]
  have l: "length ps = length fs"
    using assms(4) by (rule list_all2_lengthD)
  have mx: "x (last (snd (runFrames_fp t fs))) = windowMean 8 (map x (gazeHistory t @ ps))"
    using run assms(3) by (simp add: smoothedX_fp_buffer)
  have my: "y (last (snd (runFrames_fp t fs))) = windowMean 4 (map y (gazeHistory t @ ps))"
    using run assms(3) by (simp add: smoothedY_fp_buffer)
  have cX: "\<exists>v. x (last (snd (runFrames_fp t fs))) = Fin v \<and> \<bar>v - cx\<bar> \<le> cx / 2 ^ 50"
    if "8 \<le> length fs \<and> list_all (\<lambda>p. x p = Fin cx) ps
          \<and> (cx = 0 \<or> 1 / 2 ^ 1000 \<le> cx \<and> cx \<le> 2 ^ 1000)"
  proof -
    have "map x (gazeHistory t @ ps) = map x (gazeHistory t) @ replicate (length ps) (Fin cx)"
      using that by (simp add: map_constant)
    then show ?thesis
      unfolding mx using windowMean_constant_near [of 8 "length ps" cx "map x (gazeHistory t)"] that l
      by simp
  qed
  have cY: "\<exists>v. y (last (snd (runFrames_fp t fs))) = Fin v \<and> \<bar>v - cy\<bar> \<le> cy / 2 ^ 50"
    if "4 \<le> length fs \<and> list_all (\<lambda>p. y p = Fin cy) ps
          \<and> (cy = 0 \<or> 1 / 2 ^ 1000 \<le> cy \<and> cy \<le> 2 ^ 1000)"
  proof -
    have "map y (gazeHistory t @ ps) = map y (gazeHistory t) @ replicate (length ps) (Fin cy)"
      using that by (simp add: map_constant)
    then show ?thesis
      unfolding my using windowMean_constant_near [of 4 "length ps" cy "map y (gazeHistory t)"] that l
      by simp
  qed
  have len: "length (snd (runFrames_fp t fs)) = length fs"
    using run by simp
  show ?thesis
    using mx my cX cY len
    by (simp only: SMOOTHING_WINDOW_X_def SMOOTHING_WINDOW_Y_def) simp
qed


section \<open>Computing with given doubles\<close>

lemma toDouble_dyadic:
  assumes "\<bar>k\<bar> < 2 ^ 53" and "n \<le> 1074"
  shows "toDouble (of_int k / 2 ^ n) = Fin (of_int k / 2 ^ n)"
proof -
  have e: "of_int k * (2::real) powi (- int n) = of_int k / 2 ^ n"
    by (simp add: power_int_minus_divide)
  have "(2::real) powi (- int n) \<le> 2 powi 0"
    by (rule two_powi_mono) simp
  then have "of_int \<bar>k\<bar> * (2::real) powi (- int n) \<le> of_int \<bar>k\<bar> * 1"
    by (intro mult_left_mono) simp_all
  also have "(of_int \<bar>k\<bar> :: real) * 1 < 2 ^ 53"
    using assms(1) by (metis mult.right_neutral of_int_less_numeral_power_cancel_iff)
  also have "(2::real) ^ 53 = 2 powi 53" by simp
  also have "\<dots> < overflow" by (rule below_overflow) simp
  finally have "of_int \<bar>k\<bar> * (2::real) powi (- int n) < overflow" .
  then have "toDouble (of_int k * 2 powi (- int n)) = Fin (of_int k * 2 powi (- int n))"
    using assms by (intro toDouble_exact) simp_all
  then show ?thesis unfolding e .
qed

lemma toDouble_numeral [simp]:
  "numeral n < (2::int) ^ 53 \<Longrightarrow> toDouble (numeral n) = Fin (numeral n)"
  using toDouble_dyadic [of "numeral n" 0] by simp

lemma toDouble_one [simp]: "toDouble 1 = Fin 1"
  using toDouble_dyadic [of 1 0] by simp

lemmas doubles =
  toDouble_dyadic [of 1 1, simplified]
  toDouble_dyadic [of 1 2, simplified]
  toDouble_dyadic [of 3 2, simplified]
  toDouble_dyadic [of 1 3, simplified]
  toDouble_dyadic [of 3 3, simplified]
  toDouble_dyadic [of 5 3, simplified]
  toDouble_dyadic [of 7 3, simplified]
  toDouble_dyadic [of 7 4, simplified]
  toDouble_dyadic [of 9 4, simplified]
  toDouble_dyadic [of 3 1, simplified]
  toDouble_dyadic [of 1 4, simplified]


lemma centredLandmarks_length: "length centredLandmarks = 478"
  by (simp add: centredLandmarks_def)

lemma centredLandmarks_aspectRatio: "aspectRatio_fp centredLandmarks = Fin (1 / 2)"
  by (simp add: aspectRatio_fp_def currentEyeHeight_fp_def avgEyeWidth_fp_def leftEyeWidth_fp_def
      rightEyeWidth_fp_def leftEyeHeight_fp_def rightEyeHeight_fp_def centredLandmarks_def
      fsub_Fin fadd_Fin fdiv_Fin doubles)

lemma centredFrame_normalizedGaze:
  "normalizedGaze_fp centredLandmarks \<lparr> x = 1 / 4, y = 1 / 2 \<rparr> \<lparr> x = 3 / 4, y = 1 / 2 \<rparr> = (Fin 0, Fin 0)"
  by (simp add: normalizedGaze_fp_def leftEyeWidth_fp_def rightEyeWidth_fp_def
      leftEyeHeight_fp_def rightEyeHeight_fp_def centredLandmarks_def Let_def
      fsub_Fin fadd_Fin fdiv_Fin doubles)

lemma toDouble_0_15: "toDouble 0.15 = Fin (5404319552844595 / 2 ^ 55)"
  using toDouble_eval [of "- 3" "0.15"] by (simp add: roundEven_eval)

lemma centredFrame_feeds:
  "feedsPoint_fp m (clampToScreen sw sh (screenPoint_fp sw sh m (Fin 0, Fin 0))) (sw, sh, now, centredFrame)"
  by (simp add: feedsPoint_fp_def centredFrame_def centredLandmarks_length gazePoint_fp_def
      centredFrame_normalizedGaze isBlinking_fp_def centredLandmarks_aspectRatio
      toDouble_0_15 [simplified])


lemma list_all2_replicate: "P a b \<Longrightarrow> list_all2 P (replicate n a) (replicate n b)"
  by (induction n) simp_all

lemma clamp_inside:
  assumes "0 \<le> vx" "vx \<le> real sw" "0 \<le> vy" "vy \<le> real sh"
  shows "clampToScreen sw sh (Fin vx, Fin vy) = \<lparr> x = Fin vx, y = Fin vy \<rparr>"
  using assms by (simp add: clampToScreen_def jmax_def jmin_def)

lemma centre_point_fp:
  "screenPoint_fp 1920 1080 (calibrationMatrix (startedTracker True)) (Fin 0, Fin 0) = (Fin 960, Fin 540)"
  by (simp add: screenPoint_fp_def startedTracker_def newTracker_def fmul_Fin fadd_Fin doubles)

lemma nudged_point_fp:
  "screenPoint_fp 1920 1080 (calibrationMatrix nudgedTracker) (Fin 0, Fin 0) = (Fin (960 - 1 / 2 ^ 42), Fin 540)"
proof -
  have a: "toDouble (- (1 / 2 ^ 52)) = Fin (- (1 / 2 ^ 52))"
    using toDouble_dyadic [of "- 1" 52] by simp
  have b: "toDouble (1 - 1 / 2 ^ 52) = Fin (1 - 1 / 2 ^ 52)"
    using toDouble_dyadic [of "2 ^ 52 - 1" 52] by simp
  have c: "toDouble ((1 - 1 / 2 ^ 52) * (1 / 2)) = Fin ((1 - 1 / 2 ^ 52) * (1 / 2))"
    using toDouble_dyadic [of "2 ^ 52 - 1" 53] by simp
  have d: "toDouble ((1 - 1 / 2 ^ 52) * (1 / 2) * 1920) = Fin (960 - 1 / 2 ^ 42)"
    using toDouble_eval [of 9 "(1 - 1 / 2 ^ 52) * (1 / 2) * 1920"] by (simp add: roundEven_eval)
  show ?thesis
    using a b c d
    by (simp add: screenPoint_fp_def nudgedTracker_def startedTracker_def newTracker_def
        fmul_Fin fadd_Fin doubles)
qed

text \<open>Eight times 959.9999999999998 from the left, and the mean.\<close>

lemma nudged_mean:
  "windowMean 8 (replicate 8 (Fin (960 - 1 / 2 ^ 42))) = Fin (960 - 1 / 2 ^ 43)"
proof -
  define c :: real where "c = 960 - 1 / 2 ^ 42"
  have s1: "toDouble (0 + c) = Fin c"
    using toDouble_dyadic [of "960 * 2 ^ 42 - 1" 42] by (simp add: c_def)
  have s2: "toDouble (c + c) = Fin (1920 - 1 / 2 ^ 41)"
    using toDouble_dyadic [of "960 * 2 ^ 42 - 1" 41] by (simp add: c_def)
  have s3: "toDouble (1920 - 1 / 2 ^ 41 + c) = Fin (2880 - 1 / 2 ^ 40)"
    using toDouble_eval [of 11 "1920 - 1 / 2 ^ 41 + c"] by (simp add: c_def roundEven_eval)
  have s4: "toDouble (2880 - 1 / 2 ^ 40 + c) = Fin (3840 - 1 / 2 ^ 40)"
    using toDouble_eval [of 11 "2880 - 1 / 2 ^ 40 + c"] by (simp add: c_def roundEven_eval)
  have s5: "toDouble (3840 - 1 / 2 ^ 40 + c) = Fin (4800 - 1 / 2 ^ 40)"
    using toDouble_eval [of 12 "3840 - 1 / 2 ^ 40 + c"] by (simp add: c_def roundEven_eval)
  have s6: "toDouble (4800 - 1 / 2 ^ 40 + c) = Fin (5760 - 1 / 2 ^ 40)"
    using toDouble_eval [of 12 "4800 - 1 / 2 ^ 40 + c"] by (simp add: c_def roundEven_eval)
  have s7: "toDouble (5760 - 1 / 2 ^ 40 + c) = Fin (6720 - 1 / 2 ^ 40)"
    using toDouble_eval [of 12 "5760 - 1 / 2 ^ 40 + c"] by (simp add: c_def roundEven_eval)
  have s8: "toDouble (6720 - 1 / 2 ^ 40 + c) = Fin (7680 - 1 / 2 ^ 40)"
    using toDouble_eval [of 12 "6720 - 1 / 2 ^ 40 + c"] by (simp add: c_def roundEven_eval)
  have m: "toDouble ((7680 - 1 / 2 ^ 40) / 8) = Fin (960 - 1 / 2 ^ 43)"
    using toDouble_dyadic [of "960 * 2 ^ 43 - 1" 43] by simp
  have r8: "replicate 8 (Fin c) = [Fin c, Fin c, Fin c, Fin c, Fin c, Fin c, Fin c, Fin c]"
    by (simp add: numeral_eq_Suc)
  have "foldl fadd (Fin 0) (replicate 8 (Fin c)) = Fin (7680 - 1 / 2 ^ 40)"
    by (simp only: r8 foldl.simps fadd_Fin s1 s2 s3 s4 s5 s6 s7 s8)
  then have "windowMean 8 (replicate 8 (Fin c)) = Fin (960 - 1 / 2 ^ 43)"
    using m by (simp add: windowMean_def fdiv_Fin)
  then show ?thesis by (simp only: c_def)
qed


text \<open>Eight frames looking at the centre of a 1920 by 1080 viewport.\<close>

theorem smoothing_window_mean_witness:
  "x (last (snd (runFrames_fp (startedTracker True) (replicate 8 (1920, 1080, 0, centredFrame))))) = Fin 960
   \<and> y (last (snd (runFrames_fp (startedTracker True) (replicate 8 (1920, 1080, 0, centredFrame))))) = Fin 540
   \<and> length (snd (runFrames_fp (startedTracker True) (replicate 8 (1920, 1080, 0, centredFrame)))) = 8"
proof -
  have r: "isRunning (startedTracker True)" and c: "onGazeUpdate (startedTracker True)"
    and h: "gazeHistory (startedTracker True) = []"
    by (simp_all add: startedTracker_def newTracker_def)
  have "feedsPoint_fp (calibrationMatrix (startedTracker True)) \<lparr> x = Fin 960, y = Fin 540 \<rparr>
          (1920, 1080, 0, centredFrame)"
    using centredFrame_feeds [of "calibrationMatrix (startedTracker True)" 1920 1080 0]
    by (simp add: centre_point_fp clamp_inside)
  then have f: "list_all2 (feedsPoint_fp (calibrationMatrix (startedTracker True)))
      (replicate 8 \<lparr> x = Fin 960, y = Fin 540 \<rparr>) (replicate 8 (1920, 1080, 0, centredFrame))"
    by (rule list_all2_replicate)
  have ne: "replicate 8 (1920::nat, 1080::nat, 0::real, centredFrame) \<noteq> []"
    by simp
  have r8: "replicate 8 v = [v, v, v, v, v, v, v, v]" for v :: jsnum
    by (simp add: numeral_eq_Suc)
  have r4: "replicate 4 v = [v, v, v, v]" for v :: jsnum
    by (simp add: numeral_eq_Suc)
  have wx: "windowMean 8 (replicate 8 (Fin 960)) = Fin 960"
    by (simp add: windowMean_def r8 fadd_Fin fdiv_Fin)
  have wy: "windowMean 4 (replicate 8 (Fin 540)) = Fin 540"
    by (simp add: windowMean_def r4 fadd_Fin fdiv_Fin)
  show ?thesis
    using smoothing_window_mean [OF r c ne f, of 960 540]
    by (simp add: h wx wy SMOOTHING_WINDOW_X_def SMOOTHING_WINDOW_Y_def)
qed

text \<open>
  The claim as it is written has the output equal to the constant exactly. Under a
  calibration with the offset \<open>-2\<^sup>-\<^sup>5\<^sup>2\<close> the frame that looks at the centre of a 1920 by
  1080 viewport has the clamped point \<open>x = 960 - 2\<^sup>-\<^sup>4\<^sup>2\<close> (959.9999999999998). After eight
  such frames the sum of the eight buffered values has been rounded three times, and the
  smoothed x is \<open>960 - 2\<^sup>-\<^sup>4\<^sup>3\<close> (959.9999999999999).
\<close>

theorem smoothing_not_exact_counterexample:
  "isRunning nudgedTracker \<and> onGazeUpdate nudgedTracker
   \<and> list_all2 (feedsPoint_fp (calibrationMatrix nudgedTracker))
        (replicate 8 \<lparr> x = Fin (960 - 1 / 2 ^ 42), y = Fin 540 \<rparr>)
        (replicate 8 (1920, 1080, 0, centredFrame))
   \<and> x (last (snd (runFrames_fp nudgedTracker (replicate 8 (1920, 1080, 0, centredFrame)))))
        = Fin (960 - 1 / 2 ^ 43)"
proof -
  have r: "isRunning nudgedTracker" and c: "onGazeUpdate nudgedTracker"
    and h: "gazeHistory nudgedTracker = []"
    by (simp_all add: nudgedTracker_def startedTracker_def newTracker_def)
  have "feedsPoint_fp (calibrationMatrix nudgedTracker) \<lparr> x = Fin (960 - 1 / 2 ^ 42), y = Fin 540 \<rparr>
          (1920, 1080, 0, centredFrame)"
    using centredFrame_feeds [of "calibrationMatrix nudgedTracker" 1920 1080 0]
    by (simp add: nudged_point_fp clamp_inside)
  then have f: "list_all2 (feedsPoint_fp (calibrationMatrix nudgedTracker))
      (replicate 8 \<lparr> x = Fin (960 - 1 / 2 ^ 42), y = Fin 540 \<rparr>) (replicate 8 (1920, 1080, 0, centredFrame))"
    by (rule list_all2_replicate)
  have "x (last (snd (runFrames_fp nudgedTracker (replicate 8 (1920, 1080, 0, centredFrame)))))
          = windowMean 8 (map x (gazeHistory nudgedTracker @ replicate 8 \<lparr> x = Fin (960 - 1 / 2 ^ 42), y = Fin 540 \<rparr>))"
    using runFrames_fp_feeds [OF f r c refl] by (simp add: smoothedX_fp_buffer)
  also have "\<dots> = Fin (960 - 1 / 2 ^ 43)"
    using nudged_mean by (simp add: h)
  finally show ?thesis
    using r c f by simp
qed

section \<open>The linear fit in double precision\<close>

lemma toDouble_not_NaN: "toDouble r \<noteq> NaN"
  by (simp add: toDouble_def Let_def)

lemma rnd_idem: "rnd (rnd v) = rnd v"
proof (cases v)
  case (Fin r)
  show ?thesis
    by (cases "toDouble r") (simp_all add: Fin toDouble_idem)
qed simp_all

lemma fmul_one_rnd: "fmul (Fin 1) (rnd v) = rnd v"
proof (cases "rnd v")
  case (Fin q)
  then have "toDouble q = Fin q"
    using rnd_idem [of v] by simp
  then show ?thesis by (simp add: Fin fmul_def)
qed (simp_all add: fmul_def inf_times_def)

text \<open>The two loops of the fitter sum each of their four quantities on its own.\<close>

lemma foldl_quad:
  "foldl (\<lambda>(a, b, c, d) p. (fadd a (f1 p), fadd b (f2 p), fadd c (f3 p), fadd d (f4 p))) (a0, b0, c0, d0) nps
     = (foldl fadd a0 (map f1 nps), foldl fadd b0 (map f2 nps),
        foldl fadd c0 (map f3 nps), foldl fadd d0 (map f4 nps))"
  by (induction nps arbitrary: a0 b0 c0 d0) simp_all

lemma normalizePoint_fp_fields:
  "x (actualN (normalizePoint_fp sw sh p)) = actualNormX_fp sw p"
  "y (actualN (normalizePoint_fp sw sh p)) = actualNormY_fp sh p"
  "x (measuredN (normalizePoint_fp sw sh p)) = measuredNormX_fp sw p"
  "y (measuredN (normalizePoint_fp sw sh p)) = measuredNormY_fp sh p"
  by (simp_all add: normalizePoint_fp_def actualNormX_fp_def actualNormY_fp_def
      measuredNormX_fp_def measuredNormY_fp_def)

lemma sumCoordinates_fp_closed:
  "sumCoordinates_fp (map (normalizePoint_fp sw sh) ps)
     = (foldl fadd (Fin 0) (map (actualNormX_fp sw) ps), foldl fadd (Fin 0) (map (actualNormY_fp sh) ps),
        foldl fadd (Fin 0) (map (measuredNormX_fp sw) ps), foldl fadd (Fin 0) (map (measuredNormY_fp sh) ps))"
  unfolding sumCoordinates_fp_def foldl_quad
  by (simp add: normalizePoint_fp_fields comp_def)

lemma sumProducts_fp_closed:
  "sumProducts_fp aX aY mX mY (map (normalizePoint_fp sw sh) ps)
     = (foldl fadd (Fin 0) (map (\<lambda>p. fmul (fsub (measuredNormX_fp sw p) mX) (fsub (actualNormX_fp sw p) aX)) ps),
        foldl fadd (Fin 0) (map (\<lambda>p. fmul (fsub (measuredNormX_fp sw p) mX) (fsub (measuredNormX_fp sw p) mX)) ps),
        foldl fadd (Fin 0) (map (\<lambda>p. fmul (fsub (measuredNormY_fp sh p) mY) (fsub (actualNormY_fp sh p) aY)) ps),
        foldl fadd (Fin 0) (map (\<lambda>p. fmul (fsub (measuredNormY_fp sh p) mY) (fsub (measuredNormY_fp sh p) mY)) ps))"
  unfolding sumProducts_fp_def Let_def foldl_quad
  by (simp add: normalizePoint_fp_fields comp_def)

lemma sumDmDm_fp_map:
  "sumDmDm_fp (map f ps) = foldl fadd (Fin 0) (map (\<lambda>p. fmul (fsub (f p) (mean_fp (map f ps))) (fsub (f p) (mean_fp (map f ps)))) ps)"
  by (simp add: sumDmDm_fp_def comp_def)

lemma sumDmDa_fp_map:
  "sumDmDa_fp (map f ps) (map g ps)
     = foldl fadd (Fin 0) (map (\<lambda>p. fmul (fsub (f p) (mean_fp (map f ps))) (fsub (g p) (mean_fp (map g ps)))) ps)"
  by (simp add: sumDmDa_fp_def map2_map_map)

lemma applyCalibration_fp_closed_form:
  assumes "ps \<noteq> []"
  shows "calibrationMatrix (applyCalibration_fp sw sh t ps) =
     \<lparr> scaleX = axisScale_fp (map (measuredNormX_fp sw) ps) (map (actualNormX_fp sw) ps),
       scaleY = axisScale_fp (map (measuredNormY_fp sh) ps) (map (actualNormY_fp sh) ps),
       offsetX = axisOffset_fp (map (measuredNormX_fp sw) ps) (map (actualNormX_fp sw) ps),
       offsetY = axisOffset_fp (map (measuredNormY_fp sh) ps) (map (actualNormY_fp sh) ps) \<rparr>"
  using assms
  by (simp add: applyCalibration_fp_def sumCoordinates_fp_closed sumProducts_fp_closed Let_def
      axisScale_fp_def axisOffset_fp_def sumDmDm_fp_map sumDmDa_fp_map mean_fp_def)

text \<open>The guarded axis.\<close>

lemma axis_guarded:
  assumes "sumDmDm_fp ms = Fin 0"
  shows "axisScale_fp ms acts = Fin 1" and "axisOffset_fp ms acts = fsub (mean_fp acts) (mean_fp ms)"
proof -
  show s: "axisScale_fp ms acts = Fin 1"
    using assms by (simp add: axisScale_fp_def)
  have "fmul (Fin 1) (mean_fp ms) = mean_fp ms"
    unfolding mean_fp_def fdiv_def by (rule fmul_one_rnd)
  then show "axisOffset_fp ms acts = fsub (mean_fp acts) (mean_fp ms)"
    by (simp add: axisOffset_fp_def s)
qed

text \<open>A single sample: the mean is the sample, and the sum of squares is zero.\<close>

lemma single_sample_zero:
  assumes "toDouble q = Fin q"
  shows "sumDmDm_fp [Fin q] = Fin 0"
  using assms by (simp add: sumDmDm_fp_def mean_fp_def fadd_Fin fdiv_Fin fsub_Fin fmul_Fin)


section \<open>Bounds that survive the rounding\<close>

lemma boundedByD: "boundedBy b v \<Longrightarrow> \<exists>q. v = Fin q \<and> \<bar>q\<bar> \<le> b"
  by (cases v) (simp_all add: boundedBy_def)

lemma boundedBy_Fin [simp]: "boundedBy b (Fin q) = (\<bar>q\<bar> \<le> b)"
  by (simp add: boundedBy_def)

lemma boundedBy_mono: "boundedBy b v \<Longrightarrow> b \<le> c \<Longrightarrow> boundedBy c v"
  by (cases v) (simp_all add: boundedBy_def)

lemma boundedBy_finite: "boundedBy b v \<Longrightarrow> isFinite v"
  by (cases v) (simp_all add: boundedBy_def)

lemma boundedBy_toDouble:
  assumes "\<bar>r\<bar> \<le> of_int m * 2 powi j" and "m < 2 ^ 53" and "- 1074 \<le> j"
      and "of_int m * (2::real) powi j < overflow"
  shows "boundedBy (of_int m * 2 powi j) (toDouble r)"
  using toDouble_abs_le [OF assms] by auto

lemma boundedBy_powi:
  assumes "\<bar>r\<bar> \<le> 2 powi j" and "- 1074 \<le> j" and "j \<le> 1023"
  shows "boundedBy (2 powi j) (toDouble r)"
  using boundedBy_toDouble [of r 1 j] assms below_overflow [of j] by simp

lemma boundedBy_fadd:
  assumes "boundedBy (2 powi i) a" and "boundedBy (2 powi i) b" and "- 1075 \<le> i" and "i \<le> 1022"
  shows "boundedBy (2 powi (i + 1)) (fadd a b)"
proof -
  obtain p q where pq: "a = Fin p" "\<bar>p\<bar> \<le> 2 powi i" "b = Fin q" "\<bar>q\<bar> \<le> 2 powi i"
    using assms(1,2) by (blast dest: boundedByD)
  have "(2::real) powi (i + 1) = 2 powi i + 2 powi i"
    using two_powi_add [of i 1] by simp
  then have "\<bar>p + q\<bar> \<le> 2 powi (i + 1)"
    using pq(2,4) by linarith
  then show ?thesis
    unfolding pq fadd_Fin using assms(3,4) by (intro boundedBy_powi) simp_all
qed

lemma boundedBy_fsub:
  assumes "boundedBy (2 powi i) a" and "boundedBy (2 powi i) b" and "- 1075 \<le> i" and "i \<le> 1022"
  shows "boundedBy (2 powi (i + 1)) (fsub a b)"
proof -
  obtain p q where pq: "a = Fin p" "\<bar>p\<bar> \<le> 2 powi i" "b = Fin q" "\<bar>q\<bar> \<le> 2 powi i"
    using assms(1,2) by (blast dest: boundedByD)
  have "(2::real) powi (i + 1) = 2 powi i + 2 powi i"
    using two_powi_add [of i 1] by simp
  then have "\<bar>p - q\<bar> \<le> 2 powi (i + 1)"
    using pq(2,4) by linarith
  then show ?thesis
    unfolding pq fsub_Fin using assms(3,4) by (intro boundedBy_powi) simp_all
qed

lemma boundedBy_fmul:
  assumes "boundedBy (2 powi i) a" and "boundedBy (2 powi j) b" and "- 1074 \<le> i + j" and "i + j \<le> 1023"
  shows "boundedBy (2 powi (i + j)) (fmul a b)"
proof -
  obtain p q where pq: "a = Fin p" "\<bar>p\<bar> \<le> 2 powi i" "b = Fin q" "\<bar>q\<bar> \<le> 2 powi j"
    using assms(1,2) by (blast dest: boundedByD)
  have "\<bar>p\<bar> * \<bar>q\<bar> \<le> 2 powi i * 2 powi j"
    using pq(2,4) by (intro mult_mono) simp_all
  then have "\<bar>p * q\<bar> \<le> 2 powi (i + j)"
    by (simp add: abs_mult two_powi_add)
  then show ?thesis
    unfolding pq fmul_Fin using assms(3,4) by (intro boundedBy_powi) simp_all
qed

lemma boundedBy_fdiv:
  assumes "boundedBy (2 powi i) a" and "1 \<le> d" and "- 1074 \<le> i" and "i \<le> 1023"
  shows "boundedBy (2 powi i) (fdiv a (Fin d))"
proof -
  obtain p where p: "a = Fin p" "\<bar>p\<bar> \<le> 2 powi i"
    using assms(1) by (blast dest: boundedByD)
  have "\<bar>p\<bar> / d \<le> \<bar>p\<bar> / 1"
    using assms(2) by (intro divide_left_mono) simp_all
  then have "\<bar>p / d\<bar> \<le> 2 powi i"
    using p(2) assms(2) by simp
  then show ?thesis
    unfolding p using assms(2,3,4) by (simp add: fdiv_Fin boundedBy_powi)
qed

text \<open>A sum of at most \<open>2\<^sup>3\<^sup>2\<close> numbers, from the left.\<close>

lemma boundedBy_foldl:
  assumes "\<forall>v \<in> set vs. boundedBy (2 powi j) v" and "boundedBy (of_nat i * 2 powi j) a"
      and "i + length vs \<le> 2 ^ 32" and "- 1074 \<le> j" and "j \<le> 970"
  shows "boundedBy (of_nat (i + length vs) * 2 powi j) (foldl fadd a vs)"
  using assms(1,2,3)
proof (induction vs arbitrary: a i)
  case Nil
  then show ?case by simp
next
  case (Cons v vs)
  obtain p q where pq: "a = Fin p" "\<bar>p\<bar> \<le> of_nat i * 2 powi j" "v = Fin q" "\<bar>q\<bar> \<le> 2 powi j"
    using Cons.prems(1,2) by (auto dest!: boundedByD)
  have i: "int (Suc i) < 2 ^ 53"
  proof -
    have "Suc i \<le> 2 ^ 32" using Cons.prems(3) by simp
    then have "int (Suc i) \<le> 2 ^ 32" by (metis of_nat_le_iff of_nat_numeral of_nat_power)
    also have "(2::int) ^ 32 < 2 ^ 53" by simp
    finally show ?thesis .
  qed
  have b: "of_int (int (Suc i)) * (2::real) powi j = of_nat i * 2 powi j + 2 powi j"
    by (simp add: algebra_simps)
  have "(of_int (int (Suc i)) :: real) \<le> of_int (2 ^ 53)"
    using i by (intro of_int_le_iff [THEN iffD2]) simp
  then have "(of_int (int (Suc i)) :: real) \<le> 2 ^ 53"
    by simp
  then have "of_int (int (Suc i)) * (2::real) powi j \<le> 2 ^ 53 * 2 powi j"
    using two_powi_pos [of j] by (intro mult_right_mono) simp_all
  also have "\<dots> = 2 powi (j + 53)"
    using two_powi_add [of j 53] by simp
  also have "\<dots> < overflow"
    using assms(5) by (intro below_overflow) simp
  finally have o: "of_int (int (Suc i)) * (2::real) powi j < overflow" .
  have "\<bar>p + q\<bar> \<le> of_int (int (Suc i)) * 2 powi j"
    unfolding b using pq(2,4) by linarith
  then have "boundedBy (of_int (int (Suc i)) * 2 powi j) (toDouble (p + q))"
    using i assms(4) o by (rule boundedBy_toDouble)
  then have s: "boundedBy (of_nat (Suc i) * 2 powi j) (fadd a v)"
    by (simp add: pq fadd_Fin)
  have "boundedBy (of_nat (Suc i + length vs) * 2 powi j) (foldl fadd (fadd a v) vs)"
    using Cons.prems(1,3) by (intro Cons.IH [OF _ s]) simp_all
  then show ?case by simp
qed

lemma boundedBy_fsum:
  assumes "\<forall>v \<in> set vs. boundedBy (2 powi j) v" and "length vs \<le> 2 ^ 32"
      and "- 1074 \<le> j" and "j \<le> 970"
  shows "boundedBy (of_nat (length vs) * 2 powi j) (foldl fadd (Fin 0) vs)"
    and "boundedBy (2 powi (j + 32)) (foldl fadd (Fin 0) vs)"
proof -
  show b: "boundedBy (of_nat (length vs) * 2 powi j) (foldl fadd (Fin 0) vs)"
    using boundedBy_foldl [OF assms(1) _ _ assms(3,4), of 0 "Fin 0"] assms(2) by simp
  have "real (length vs) \<le> real (2 ^ 32)"
    using assms(2) by (rule of_nat_mono)
  then have "real (length vs) * 2 powi j \<le> 2 ^ 32 * 2 powi j"
    using two_powi_pos [of j] by (intro mult_right_mono) simp_all
  also have "\<dots> = 2 powi (j + 32)"
    using two_powi_add [of j 32] by simp
  finally show "boundedBy (2 powi (j + 32)) (foldl fadd (Fin 0) vs)"
    using b by (rule boundedBy_mono [rotated])
qed


lemma notBelow_simps [simp]:
  "notBelow l (Fin q) = (l \<le> q)" "notBelow l PInf" "\<not> notBelow l NInf" "\<not> notBelow l NaN"
  by (simp_all add: notBelow_def)

lemma notBelow_zero_toDouble: "0 \<le> r \<Longrightarrow> notBelow 0 (toDouble r)"
proof (cases "r = 0")
  case True
  then show ?thesis by simp
next
  case False
  assume "0 \<le> r"
  with False have r: "0 < r" by simp
  have "0 \<le> of_int (roundEven (r / 2 powi (exponent r - 52))) * (2::real) powi (exponent r - 52)"
    using mantissa_bounds(1) [OF r] two_powi_pos [of "exponent r - 52"] by simp
  then show ?thesis
    using toDouble_unfold [of r] r by simp
qed

lemma notBelow_powi_toDouble: "2 powi j \<le> r \<Longrightarrow> - 1074 \<le> j \<Longrightarrow> notBelow (2 powi j) (toDouble r)"
  using toDouble_pos_ge [of 1 j r] by auto

lemma notBelow_fadd_zero:
  assumes "notBelow 0 a" and "notBelow 0 b"
  shows "notBelow 0 (fadd a b)"
  using assms by (cases a; cases b) (simp_all add: fadd_def notBelow_zero_toDouble)

lemma notBelow_fadd_left:
  assumes "notBelow (2 powi j) a" and "notBelow 0 b" and "- 1074 \<le> j"
  shows "notBelow (2 powi j) (fadd a b)"
  using assms by (cases a; cases b) (simp_all add: fadd_def notBelow_powi_toDouble)

lemma notBelow_fadd_right:
  assumes "notBelow 0 a" and "notBelow (2 powi j) b" and "- 1074 \<le> j"
  shows "notBelow (2 powi j) (fadd a b)"
  using assms by (cases a; cases b) (simp_all add: fadd_def notBelow_powi_toDouble)

lemma notBelow_foldl_zero:
  assumes "\<forall>v \<in> set vs. notBelow 0 v" and "notBelow 0 a"
  shows "notBelow 0 (foldl fadd a vs)"
  using assms by (induction vs arbitrary: a) (simp_all add: notBelow_fadd_zero)

lemma notBelow_foldl_keeps:
  assumes "\<forall>v \<in> set vs. notBelow 0 v" and "notBelow (2 powi j) a" and "- 1074 \<le> j"
  shows "notBelow (2 powi j) (foldl fadd a vs)"
  using assms by (induction vs arbitrary: a) (simp_all add: notBelow_fadd_left)

text \<open>A sum of numbers that are not negative is at least each of them, as far as that one
  is at least a power of two.\<close>

lemma notBelow_foldl:
  assumes "\<forall>v \<in> set vs. notBelow 0 v" and "notBelow 0 a" and "w \<in> set vs"
      and "notBelow (2 powi j) w" and "- 1074 \<le> j"
  shows "notBelow (2 powi j) (foldl fadd a vs)"
proof -
  obtain pre post where vs: "vs = pre @ w # post"
    using assms(3) by (meson split_list)
  have "notBelow 0 (foldl fadd a pre)"
    using assms(1,2) by (intro notBelow_foldl_zero) (simp_all add: vs)
  then have "notBelow (2 powi j) (fadd (foldl fadd a pre) w)"
    using assms(4,5) by (rule notBelow_fadd_right)
  then have "notBelow (2 powi j) (foldl fadd (fadd (foldl fadd a pre) w) post)"
    using assms(1,5) by (intro notBelow_foldl_keeps) (simp_all add: vs)
  then show ?thesis by (simp add: vs)
qed

lemma foldl_fadd_zeros: "\<forall>v \<in> set vs. v = Fin 0 \<Longrightarrow> foldl fadd (Fin 0) vs = Fin 0"
  by (induction vs) (simp_all add: fadd_Fin)

lemma foldl_fadd_min:
  assumes "vs \<noteq> []" and "foldl fadd a vs = Fin de" and "de \<noteq> 0"
  shows "2 powi (- 1074) \<le> \<bar>de\<bar>"
proof -
  obtain us u where vs: "vs = us @ [u]"
    using assms(1) by (meson rev_exhaust)
  then have "rnd (jadd (foldl fadd a us) u) = Fin de"
    using assms(2) by (simp add: fadd_def)
  then obtain r where "toDouble r = Fin de"
    by (cases "jadd (foldl fadd a us) u") simp_all
  then show ?thesis
    using toDouble_min [of r de] assms(3) by simp
qed

lemma max_magnitude: "qs \<noteq> [] \<Longrightarrow> \<exists>m \<in> set qs. \<forall>q \<in> set qs. \<bar>q\<bar> \<le> \<bar>m :: real\<bar>"
proof (induction qs)
  case Nil
  then show ?case by simp
next
  case (Cons a qs)
  show ?case
  proof (cases "qs = []")
    case True
    then show ?thesis by simp
  next
    case False
    then obtain m where m: "m \<in> set qs" "\<forall>q \<in> set qs. \<bar>q\<bar> \<le> \<bar>m\<bar>"
      using Cons.IH by blast
    show ?thesis
    proof (cases "\<bar>a\<bar> \<le> \<bar>m\<bar>")
      case True
      with m show ?thesis by auto
    next
      case False
      then have "\<forall>q \<in> set (a # qs). \<bar>q\<bar> \<le> \<bar>a\<bar>"
        using m(2) by auto
      then show ?thesis by auto
    qed
  qed
qed


text \<open>
  The quotient of the two sums. The products \<open>q\<cdot>a\<close> are small when all \<open>q\<close> are small, and
  the sum of the squares \<open>q\<^sup>2\<close>, when it is not zero, is at least the square of the largest
  \<open>q\<close> or the smallest positive double: the quotient cannot overflow.
\<close>

lemma ratio_bounded:
  fixes qs acts :: "real list" and K :: int
  assumes len: "length qs = length acts" "length qs \<le> 2 ^ 32" "qs \<noteq> []"
      and K: "0 \<le> K" "K \<le> 200"
      and q: "\<forall>q \<in> set qs. \<bar>q\<bar> \<le> 2 powi K \<and> toDouble q = Fin q"
      and a: "\<forall>a \<in> set acts. \<bar>a\<bar> \<le> 2 powi K"
  shows "\<exists>nu de. foldl fadd (Fin 0) (map2 (\<lambda>q a. fmul (Fin q) (Fin a)) qs acts) = Fin nu
            \<and> foldl fadd (Fin 0) (map (\<lambda>q. fmul (Fin q) (Fin q)) qs) = Fin de
            \<and> (de \<noteq> 0 \<longrightarrow> \<bar>nu / de\<bar> \<le> 2 powi (K + 570))"
proof -
  define ts where "ts = map2 (\<lambda>q a. fmul (Fin q) (Fin a)) qs acts"
  define ds where "ds = map (\<lambda>q. fmul (Fin q) (Fin q)) qs"
  have lt: "length ts \<le> 2 ^ 32" and ld: "length ds \<le> 2 ^ 32" and dne: "ds \<noteq> []"
    using len by (simp_all add: ts_def ds_def)
  have tsE: "\<exists>q a. v = fmul (Fin q) (Fin a) \<and> q \<in> set qs \<and> a \<in> set acts" if "v \<in> set ts" for v
    using that unfolding ts_def by (auto dest: set_zip_leftD set_zip_rightD)
  have dsE: "\<exists>q. v = fmul (Fin q) (Fin q) \<and> q \<in> set qs" if "v \<in> set ds" for v
    using that unfolding ds_def by auto
  have tb: "\<forall>v \<in> set ts. boundedBy (2 powi (p + K)) v"
    if "\<forall>q \<in> set qs. \<bar>q\<bar> \<le> 2 powi p" and "- 1074 \<le> p" and "p \<le> 201" for p
  proof
    fix v assume "v \<in> set ts"
    then obtain q a where v: "v = fmul (Fin q) (Fin a)" "q \<in> set qs" "a \<in> set acts"
      using tsE by blast
    have "boundedBy (2 powi p) (Fin q)" and "boundedBy (2 powi K) (Fin a)"
      using v(2,3) that(1) a by simp_all
    then show "boundedBy (2 powi (p + K)) v"
      unfolding v(1) using that(2,3) K by (intro boundedBy_fmul) simp_all
  qed
  have "\<forall>q \<in> set qs. \<bar>q\<bar> \<le> 2 powi K"
    using q by simp
  then have "\<forall>v \<in> set ts. boundedBy (2 powi (K + K)) v"
    using K by (intro tb) simp_all
  then obtain nu where nu: "foldl fadd (Fin 0) ts = Fin nu"
    using boundedBy_fsum(2) [of ts "K + K"] lt K by (auto dest!: boundedByD)
  have "\<forall>v \<in> set ds. boundedBy (2 powi (K + K)) v"
  proof
    fix v assume "v \<in> set ds"
    then obtain q where v: "v = fmul (Fin q) (Fin q)" "q \<in> set qs"
      using dsE by blast
    have "boundedBy (2 powi K) (Fin q)"
      using v(2) q by simp
    then show "boundedBy (2 powi (K + K)) v"
      unfolding v(1) using K by (intro boundedBy_fmul) simp_all
  qed
  then obtain de where de: "foldl fadd (Fin 0) ds = Fin de"
    using boundedBy_fsum(2) [of ds "K + K"] ld K by (auto dest!: boundedByD)
  have d0: "\<forall>v \<in> set ds. notBelow 0 v"
  proof
    fix v assume "v \<in> set ds"
    then obtain q where v: "v = fmul (Fin q) (Fin q)" "q \<in> set qs"
      using dsE by blast
    show "notBelow 0 v"
      unfolding v(1) fmul_Fin by (rule notBelow_zero_toDouble) simp
  qed
  have de0: "0 \<le> de"
    using notBelow_foldl_zero [OF d0, of "Fin 0"] by (simp add: de)
  have r: "\<bar>nu / de\<bar> \<le> 2 powi (K + 570)" if nz: "de \<noteq> 0"
  proof -
    obtain m where m: "m \<in> set qs" "\<forall>q \<in> set qs. \<bar>q\<bar> \<le> \<bar>m\<bar>"
      using max_magnitude [OF len(3)] by blast
    have m0: "m \<noteq> 0"
    proof
      assume "m = 0"
      then have "\<forall>q \<in> set qs. q = 0" using m(2) by simp
      then have "\<forall>v \<in> set ds. v = Fin 0" by (auto simp: ds_def fmul_Fin)
      then have "foldl fadd (Fin 0) ds = Fin 0" by (rule foldl_fadd_zeros)
      with de nz show False by simp
    qed
    have mmin: "2 powi (- 1074) \<le> \<bar>m\<bar>"
      using toDouble_min [of m m] q m(1) m0 by simp
    have mK: "\<bar>m\<bar> \<le> 2 powi K"
      using q m(1) by simp
    define p where "p = \<lfloor>log 2 \<bar>m\<bar>\<rfloor> + 1"
    have p1: "2 powi (p - 1) \<le> \<bar>m\<bar>" and p2: "\<bar>m\<bar> < 2 powi p"
      using floor_log2 [OF m0] by (simp_all add: p_def)
    have plo: "- 1074 < p"
    proof (rule ccontr)
      assume "\<not> - 1074 < p"
      then have "(2::real) powi p \<le> 2 powi (- 1074)"
        by (intro two_powi_mono) simp
      with mmin p2 show False by linarith
    qed
    have phi: "p - 1 \<le> K"
    proof (rule ccontr)
      assume "\<not> p - 1 \<le> K"
      then have "(2::real) powi K < 2 powi (p - 1)"
        by (intro two_powi_strict_mono) simp
      with mK p1 show False by linarith
    qed
    have "\<forall>q \<in> set qs. \<bar>q\<bar> \<le> 2 powi p"
      using m(2) p2 by (meson less_imp_le order_trans)
    then have "\<forall>v \<in> set ts. boundedBy (2 powi (p + K)) v"
      using plo phi K by (intro tb) simp_all
    then have "boundedBy (2 powi (p + K + 32)) (foldl fadd (Fin 0) ts)"
      using lt plo phi K by (intro boundedBy_fsum(2)) simp_all
    then have nub: "\<bar>nu\<bar> \<le> 2 powi (p + K + 32)"
      by (simp add: nu)
    have pos: "0 < de" using de0 nz by simp
    show ?thesis
    proof (cases "- 1074 \<le> 2 * p - 2")
      case True
      define w where "w = fmul (Fin m) (Fin m)"
      have wm: "w \<in> set ds" using m(1) by (simp add: w_def ds_def)
      have "(2::real) powi (2 * p - 2) = 2 powi (p - 1) * 2 powi (p - 1)"
        using two_powi_add [of "p - 1" "p - 1"] by (simp add: algebra_simps)
      also have "\<dots> \<le> \<bar>m\<bar> * \<bar>m\<bar>"
        using p1 two_powi_pos [of "p - 1"] by (intro mult_mono) simp_all
      also have "\<dots> = m * m" by simp
      finally have "notBelow (2 powi (2 * p - 2)) w"
        unfolding w_def fmul_Fin using True by (rule notBelow_powi_toDouble)
      then have "notBelow (2 powi (2 * p - 2)) (foldl fadd (Fin 0) ds)"
        using d0 wm True by (intro notBelow_foldl [where w = w]) simp_all
      then have deb: "2 powi (2 * p - 2) \<le> de"
        by (simp add: de)
      have "\<bar>nu\<bar> / de \<le> 2 powi (p + K + 32) / 2 powi (2 * p - 2)"
        using nub deb two_powi_pos [of "2 * p - 2"] by (intro frac_le) simp_all
      also have "\<dots> = 2 powi (p + K + 32 - (2 * p - 2))"
        by (rule two_powi_diff [symmetric])
      also have "\<dots> \<le> 2 powi (K + 570)"
        using True by (intro two_powi_mono) simp
      finally show ?thesis
        using pos by (simp add: abs_divide)
    next
      case False
      have deb: "2 powi (- 1074) \<le> de"
        using foldl_fadd_min [OF dne de nz] pos by simp
      have "\<bar>nu\<bar> / de \<le> 2 powi (p + K + 32) / 2 powi (- 1074)"
        using nub deb two_powi_pos [of "- 1074"] by (intro frac_le) simp_all
      also have "\<dots> = 2 powi (p + K + 32 - (- 1074))"
        by (rule two_powi_diff [symmetric])
      also have "\<dots> \<le> 2 powi (K + 570)"
        using False by (intro two_powi_mono) simp
      finally show ?thesis
        using pos by (simp add: abs_divide)
    qed
  qed
  show ?thesis
    using nu de r unfolding ts_def ds_def by blast
qed


lemma Fin_list:
  "\<forall>v \<in> set vs. \<exists>q. v = Fin q \<and> P q \<Longrightarrow> \<exists>qs. vs = map Fin qs \<and> (\<forall>q \<in> set qs. P q)"
proof (induction vs)
  case Nil
  show ?case by simp
next
  case (Cons v vs)
  then obtain q qs where "v = Fin q" "P q" "vs = map Fin qs" "\<forall>q \<in> set qs. P q"
    by auto
  then have "v # vs = map Fin (q # qs) \<and> (\<forall>q \<in> set (q # qs). P q)"
    by simp
  then show ?case by (rule exI [of _ "q # qs"])
qed

lemma mean_fp_bounded:
  assumes "vs \<noteq> []" and "length vs \<le> 2 ^ 32" and "\<forall>v \<in> set vs. boundedBy (2 powi j) v"
      and "- 1074 \<le> j" and "j \<le> 970"
  shows "boundedBy (2 powi (j + 32)) (mean_fp vs)"
proof -
  have "1 \<le> length vs"
    using assms(1) by (cases vs) simp_all
  then have "1 \<le> real (length vs)"
    by simp
  then show ?thesis
    unfolding mean_fp_def
    using boundedBy_fsum(2) [OF assms(3,2,4,5)] assms(4,5) by (intro boundedBy_fdiv) simp_all
qed

text \<open>An axis whose normalized values are finite and at most \<open>2\<^sup>1\<^sup>0\<^sup>2\<close> in magnitude.\<close>

lemma axis_finite:
  assumes ne: "ms \<noteq> []" and len: "length ms = length acts" "length ms \<le> 2 ^ 32"
      and m: "\<forall>m \<in> set ms. boundedBy (2 powi 102) m"
      and a: "\<forall>a \<in> set acts. boundedBy (2 powi 102) a"
  shows "isFinite (axisScale_fp ms acts)" and "isFinite (axisOffset_fp ms acts)"
proof -
  have mm: "boundedBy (2 powi 134) (mean_fp ms)"
    using mean_fp_bounded [OF ne len(2) m] by simp
  have ane: "acts \<noteq> []" using ne len(1) by auto
  have ma: "boundedBy (2 powi 134) (mean_fp acts)"
    using mean_fp_bounded [OF ane _ a] len by simp
  have w: "(2::real) powi 102 \<le> 2 powi 134"
    by (rule two_powi_mono) simp
  have dm: "\<forall>v \<in> set (map (\<lambda>m. fsub m (mean_fp ms)) ms).
              \<exists>q. v = Fin q \<and> (\<bar>q\<bar> \<le> 2 powi 135 \<and> toDouble q = Fin q)"
  proof
    fix v assume "v \<in> set (map (\<lambda>m. fsub m (mean_fp ms)) ms)"
    then obtain u where u: "u \<in> set ms" "v = fsub u (mean_fp ms)" by auto
    have "boundedBy (2 powi 134) u"
      using m u(1) w by (blast intro: boundedBy_mono)
    then have "boundedBy (2 powi (134 + 1)) v"
      unfolding u(2) using mm by (intro boundedBy_fsub) simp_all
    then obtain q where q: "v = Fin q" "\<bar>q\<bar> \<le> 2 powi 135"
      by (auto dest!: boundedByD)
    have "rnd v = v"
      unfolding u(2) fsub_def by (rule rnd_idem)
    then have "toDouble q = Fin q"
      by (simp add: q(1))
    with q show "\<exists>q. v = Fin q \<and> (\<bar>q\<bar> \<le> 2 powi 135 \<and> toDouble q = Fin q)"
      by blast
  qed
  have da: "\<forall>v \<in> set (map (\<lambda>a. fsub a (mean_fp acts)) acts). \<exists>q. v = Fin q \<and> \<bar>q\<bar> \<le> 2 powi 135"
  proof
    fix v assume "v \<in> set (map (\<lambda>a. fsub a (mean_fp acts)) acts)"
    then obtain u where u: "u \<in> set acts" "v = fsub u (mean_fp acts)" by auto
    have "boundedBy (2 powi 134) u"
      using a u(1) w by (blast intro: boundedBy_mono)
    then have "boundedBy (2 powi (134 + 1)) v"
      unfolding u(2) using ma by (intro boundedBy_fsub) simp_all
    then show "\<exists>q. v = Fin q \<and> \<bar>q\<bar> \<le> 2 powi 135"
      by (auto dest!: boundedByD)
  qed
  obtain qs where qs: "map (\<lambda>m. fsub m (mean_fp ms)) ms = map Fin qs"
      "\<forall>q \<in> set qs. \<bar>q\<bar> \<le> 2 powi 135 \<and> toDouble q = Fin q"
    using Fin_list [OF dm] by blast
  obtain rs where rs: "map (\<lambda>a. fsub a (mean_fp acts)) acts = map Fin rs"
      "\<forall>q \<in> set rs. \<bar>q\<bar> \<le> 2 powi 135"
    using Fin_list [OF da] by blast
  have lq: "length qs = length ms" and lr: "length rs = length acts"
    using qs(1) rs(1) by (metis length_map)+
  have dd: "sumDmDm_fp ms = foldl fadd (Fin 0) (map (\<lambda>q. fmul (Fin q) (Fin q)) qs)"
  proof -
    have "map (\<lambda>m. fmul (fsub m (mean_fp ms)) (fsub m (mean_fp ms))) ms
            = map (\<lambda>v. fmul v v) (map (\<lambda>m. fsub m (mean_fp ms)) ms)"
      by (simp add: comp_def)
    also have "\<dots> = map (\<lambda>q. fmul (Fin q) (Fin q)) qs"
      unfolding qs(1) by (simp add: comp_def)
    finally show ?thesis by (simp add: sumDmDm_fp_def)
  qed
  have dn: "sumDmDa_fp ms acts = foldl fadd (Fin 0) (map2 (\<lambda>q a. fmul (Fin q) (Fin a)) qs rs)"
  proof -
    have "map2 (\<lambda>m a. fmul (fsub m (mean_fp ms)) (fsub a (mean_fp acts))) ms acts
            = map2 fmul (map (\<lambda>m. fsub m (mean_fp ms)) ms) (map (\<lambda>a. fsub a (mean_fp acts)) acts)"
      by (simp add: zip_map_map split_beta)
    also have "\<dots> = map2 (\<lambda>q a. fmul (Fin q) (Fin a)) qs rs"
      unfolding qs(1) rs(1) by (simp add: zip_map_map split_beta)
    finally show ?thesis by (simp add: sumDmDa_fp_def)
  qed
  have qne: "qs \<noteq> []" using lq ne by auto
  have l1: "length qs = length rs" using lq lr len(1) by simp
  have l2: "length qs \<le> 2 ^ 32" using lq len(2) by simp
  have "\<exists>nu de. sumDmDa_fp ms acts = Fin nu \<and> sumDmDm_fp ms = Fin de
          \<and> (de \<noteq> 0 \<longrightarrow> \<bar>nu / de\<bar> \<le> 2 powi (135 + 570))"
    unfolding dd dn by (rule ratio_bounded [OF l1 l2 qne _ _ qs(2) rs(2)]) simp_all
  then obtain nu de where r: "sumDmDa_fp ms acts = Fin nu" "sumDmDm_fp ms = Fin de"
      "de \<noteq> 0 \<longrightarrow> \<bar>nu / de\<bar> \<le> 2 powi (135 + 570)"
    by blast
  have "(1::real) = 2 powi 0" by simp
  also have "\<dots> \<le> 2 powi 705" by (rule two_powi_mono) simp
  finally have one: "(1::real) \<le> 2 powi 705" .
  have sc: "boundedBy (2 powi 705) (axisScale_fp ms acts)"
  proof (cases "de = 0")
    case True
    then show ?thesis using one by (simp add: axisScale_fp_def r)
  next
    case False
    then have "\<bar>nu / de\<bar> \<le> 2 powi 705" using r(3) by simp
    then have "boundedBy (2 powi 705) (toDouble (nu / de))"
      by (rule boundedBy_powi) simp_all
    then show ?thesis using False by (simp add: axisScale_fp_def r fdiv_Fin)
  qed
  then show "isFinite (axisScale_fp ms acts)"
    by (rule boundedBy_finite)
  have "boundedBy (2 powi (705 + 134)) (fmul (axisScale_fp ms acts) (mean_fp ms))"
    using sc mm by (rule boundedBy_fmul) simp_all
  moreover have "boundedBy (2 powi (705 + 134)) (mean_fp acts)"
    using ma by (rule boundedBy_mono) (intro two_powi_mono, simp)
  ultimately have "boundedBy (2 powi (705 + 134 + 1)) (axisOffset_fp ms acts)"
    unfolding axisOffset_fp_def by (intro boundedBy_fsub) simp_all
  then show "isFinite (axisOffset_fp ms acts)"
    by (rule boundedBy_finite)
qed


text \<open>The normalized coordinates of a bounded sample on a viewport of positive size.\<close>

lemma normalized_bounded:
  assumes "\<bar>v\<bar> \<le> 2 ^ 100" and "0 < s"
  shows "boundedBy (2 powi 102) (fsub (fmul (fdiv (toDouble v) (Fin (real s))) (Fin 2)) (Fin 1))"
proof -
  have "\<bar>v\<bar> \<le> 2 powi 100" using assms(1) by simp
  then have a: "boundedBy (2 powi 100) (toDouble v)"
    by (rule boundedBy_powi) simp_all
  have "1 \<le> real s" using assms(2) by simp
  then have b: "boundedBy (2 powi 100) (fdiv (toDouble v) (Fin (real s)))"
    using a by (intro boundedBy_fdiv) simp_all
  have "boundedBy (2 powi 1) (Fin 2)" by simp
  with b have c: "boundedBy (2 powi (100 + 1)) (fmul (fdiv (toDouble v) (Fin (real s))) (Fin 2))"
    by (rule boundedBy_fmul) simp_all
  have "(1::real) = 2 powi 0" by simp
  also have "\<dots> \<le> 2 powi (100 + 1)" by (rule two_powi_mono) simp
  finally have "boundedBy (2 powi (100 + 1)) (Fin 1)" by simp
  with c have "boundedBy (2 powi (100 + 1 + 1)) (fsub (fmul (fdiv (toDouble v) (Fin (real s))) (Fin 2)) (Fin 1))"
    by (rule boundedBy_fsub) simp_all
  then show ?thesis by simp
qed

lemma toDouble_bounded:
  assumes "\<bar>v\<bar> \<le> 2 ^ 100"
  shows "boundedBy (2 powi 102) (toDouble v)"
proof -
  have "\<bar>v\<bar> \<le> 2 powi 100" using assms(1) by simp
  then have "boundedBy (2 powi 100) (toDouble v)"
    by (rule boundedBy_powi) simp_all
  then show ?thesis
    by (rule boundedBy_mono) (intro two_powi_mono, simp)
qed

lemma normalized_sample_bounded:
  assumes "boundedSample p" and "0 < sw" and "0 < sh"
  shows "boundedBy (2 powi 102) (actualNormX_fp sw p)" and "boundedBy (2 powi 102) (actualNormY_fp sh p)"
    and "boundedBy (2 powi 102) (measuredNormX_fp sw p)" and "boundedBy (2 powi 102) (measuredNormY_fp sh p)"
proof -
  have ax: "\<bar>x (actual p)\<bar> \<le> 2 ^ 100" and ay: "\<bar>y (actual p)\<bar> \<le> 2 ^ 100"
    and mx: "\<bar>x (measured p)\<bar> \<le> 2 ^ 100" and my: "\<bar>y (measured p)\<bar> \<le> 2 ^ 100"
    using assms(1) by (simp_all add: boundedSample_def)
  show "boundedBy (2 powi 102) (actualNormX_fp sw p)"
    unfolding actualNormX_fp_def using ax assms(2) by (rule normalized_bounded)
  show "boundedBy (2 powi 102) (actualNormY_fp sh p)"
    unfolding actualNormY_fp_def using ay assms(3) by (rule normalized_bounded)
  show "boundedBy (2 powi 102) (measuredNormX_fp sw p)"
  proof (cases "normalizedX (measured p)")
    case None
    show ?thesis
      unfolding measuredNormX_fp_def None option.case using mx assms(2) by (rule normalized_bounded)
  next
    case (Some v)
    have "\<bar>v\<bar> \<le> 2 ^ 100"
      using assms(1) Some by (simp add: boundedSample_def)
    then show ?thesis
      unfolding measuredNormX_fp_def Some option.case by (rule toDouble_bounded)
  qed
  show "boundedBy (2 powi 102) (measuredNormY_fp sh p)"
  proof (cases "normalizedY (measured p)")
    case None
    show ?thesis
      unfolding measuredNormY_fp_def None option.case using my assms(3) by (rule normalized_bounded)
  next
    case (Some v)
    have "\<bar>v\<bar> \<le> 2 ^ 100"
      using assms(1) Some by (simp add: boundedSample_def)
    then show ?thesis
      unfolding measuredNormY_fp_def Some option.case by (rule toDouble_bounded)
  qed
qed

lemma measuredNorm_rounded:
  "rnd (measuredNormX_fp sw p) = measuredNormX_fp sw p"
  "rnd (measuredNormY_fp sh p) = measuredNormY_fp sh p"
  using rnd_idem [of "Fin v" for v]
  by (auto simp: measuredNormX_fp_def measuredNormY_fp_def fsub_def rnd_idem split: option.splits)

lemma single_bounded_sample:
  assumes "boundedBy b v" and "rnd v = v"
  shows "sumDmDm_fp [v] = Fin 0"
proof -
  obtain q where q: "v = Fin q" using assms(1) by (auto dest!: boundedByD)
  then have "toDouble q = Fin q" using assms(2) by simp
  then show ?thesis unfolding q by (rule single_sample_zero)
qed

text \<open>
  C10 (as amended), in double arithmetic. For a non-empty array of samples and a viewport
  of positive width and height, the samples bounded by \<open>2\<^sup>1\<^sup>0\<^sup>0\<close> in every coordinate: when
  the sum of squares \<open>\<Sigma>(dm\<^sup>2)\<close> that the fitter computes for an axis is zero, as it is with a
  single sample, the division is skipped, the scale of the axis is 1 and its offset is
  \<open>mean(actual) - mean(measured)\<close>; otherwise the scale is the quotient by that sum, which is
  not zero; and the four components of the installed matrix are finite numbers in every
  case. (An array has fewer than \<open>2\<^sup>3\<^sup>2\<close> elements.)
\<close>

theorem applyCalibration_fp_degenerate_axis:
  assumes "ps \<noteq> []" and "0 < sw" and "0 < sh" and "list_all boundedSample ps" and "length ps < 2 ^ 32"
  shows "(sumDmDm_fp (map (measuredNormX_fp sw) ps) = Fin 0 \<longrightarrow>
            scaleX (calibrationMatrix (applyCalibration_fp sw sh t ps)) = Fin 1
          \<and> offsetX (calibrationMatrix (applyCalibration_fp sw sh t ps))
              = fsub (mean_fp (map (actualNormX_fp sw) ps)) (mean_fp (map (measuredNormX_fp sw) ps)))
       \<and> (sumDmDm_fp (map (measuredNormY_fp sh) ps) = Fin 0 \<longrightarrow>
            scaleY (calibrationMatrix (applyCalibration_fp sw sh t ps)) = Fin 1
          \<and> offsetY (calibrationMatrix (applyCalibration_fp sw sh t ps))
              = fsub (mean_fp (map (actualNormY_fp sh) ps)) (mean_fp (map (measuredNormY_fp sh) ps)))
       \<and> (sumDmDm_fp (map (measuredNormX_fp sw) ps) \<noteq> Fin 0 \<longrightarrow>
            scaleX (calibrationMatrix (applyCalibration_fp sw sh t ps))
              = fdiv (sumDmDa_fp (map (measuredNormX_fp sw) ps) (map (actualNormX_fp sw) ps))
                     (sumDmDm_fp (map (measuredNormX_fp sw) ps)))
       \<and> (sumDmDm_fp (map (measuredNormY_fp sh) ps) \<noteq> Fin 0 \<longrightarrow>
            scaleY (calibrationMatrix (applyCalibration_fp sw sh t ps))
              = fdiv (sumDmDa_fp (map (measuredNormY_fp sh) ps) (map (actualNormY_fp sh) ps))
                     (sumDmDm_fp (map (measuredNormY_fp sh) ps)))
       \<and> (length ps = 1 \<longrightarrow>
            sumDmDm_fp (map (measuredNormX_fp sw) ps) = Fin 0
          \<and> sumDmDm_fp (map (measuredNormY_fp sh) ps) = Fin 0)
       \<and> isFinite (scaleX (calibrationMatrix (applyCalibration_fp sw sh t ps)))
       \<and> isFinite (scaleY (calibrationMatrix (applyCalibration_fp sw sh t ps)))
       \<and> isFinite (offsetX (calibrationMatrix (applyCalibration_fp sw sh t ps)))
       \<and> isFinite (offsetY (calibrationMatrix (applyCalibration_fp sw sh t ps)))"
proof -
  note cf = applyCalibration_fp_closed_form [OF assms(1), of sw sh t]
  have b: "boundedSample p" if "p \<in> set ps" for p
    using assms(4) that by (simp add: list_all_iff)
  have len: "length ps \<le> 2 ^ 32" using assms(5) by simp
  have bm: "\<forall>m \<in> set (map (measuredNormX_fp sw) ps). boundedBy (2 powi 102) m"
           "\<forall>m \<in> set (map (measuredNormY_fp sh) ps). boundedBy (2 powi 102) m"
    and ba: "\<forall>a \<in> set (map (actualNormX_fp sw) ps). boundedBy (2 powi 102) a"
            "\<forall>a \<in> set (map (actualNormY_fp sh) ps). boundedBy (2 powi 102) a"
    using normalized_sample_bounded [OF b assms(2,3)] by auto
  have ll: "length (map f ps) = length (map g ps)" "length (map f ps) \<le> 2 ^ 32" "map f ps \<noteq> []"
    for f g :: "'a CalibrationPoint_scheme \<Rightarrow> jsnum"
    using len assms(1) by simp_all
  have fX: "isFinite (axisScale_fp (map (measuredNormX_fp sw) ps) (map (actualNormX_fp sw) ps))"
           "isFinite (axisOffset_fp (map (measuredNormX_fp sw) ps) (map (actualNormX_fp sw) ps))"
    using axis_finite [OF ll(3) ll(1) ll(2) bm(1) ba(1)] by blast+
  have fY: "isFinite (axisScale_fp (map (measuredNormY_fp sh) ps) (map (actualNormY_fp sh) ps))"
           "isFinite (axisOffset_fp (map (measuredNormY_fp sh) ps) (map (actualNormY_fp sh) ps))"
    using axis_finite [OF ll(3) ll(1) ll(2) bm(2) ba(2)] by blast+
  have one: "sumDmDm_fp (map (measuredNormX_fp sw) ps) = Fin 0
          \<and> sumDmDm_fp (map (measuredNormY_fp sh) ps) = Fin 0" if l1: "length ps = 1"
  proof -
    obtain p where p: "ps = [p]"
      using l1 by (cases ps) auto
    have bp: "boundedSample p" using b p by simp
    show ?thesis
      using single_bounded_sample [OF normalized_sample_bounded(3) [OF bp assms(2,3)] measuredNorm_rounded(1)]
            single_bounded_sample [OF normalized_sample_bounded(4) [OF bp assms(2,3)] measuredNorm_rounded(2)]
      by (simp add: p)
  qed
  show ?thesis
    using fX fY one
    by (simp add: cf axis_guarded) (simp add: axisScale_fp_def)
qed

lemma tenth_double: "toDouble tenth = Fin tenth"
  unfolding tenth_def using toDouble_dyadic [of 3602879701896397 55] by simp

lemma minus_tenth_double: "toDouble (- tenth) = Fin (- tenth)"
  unfolding tenth_def using toDouble_dyadic [of "- 3602879701896397" 55] by simp

text \<open>A single sample, with the target at the centre and the measurement at (0.1, 0.1).\<close>

theorem applyCalibration_fp_degenerate_axis_witness:
  "scaleX (calibrationMatrix (applyCalibration_fp 1920 1080 (newTracker True) [sample 960 540 tenth tenth])) = Fin 1
   \<and> offsetX (calibrationMatrix (applyCalibration_fp 1920 1080 (newTracker True) [sample 960 540 tenth tenth]))
       = Fin (- tenth)
   \<and> isFinite (offsetY (calibrationMatrix (applyCalibration_fp 1920 1080 (newTracker True) [sample 960 540 tenth tenth])))"
proof -
  have t: "\<bar>tenth\<bar> \<le> 2 ^ 100"
    by (simp add: tenth_def)
  have b: "list_all boundedSample [sample 960 540 tenth tenth]"
    using t by (simp add: boundedSample_def sample_def)
  have a: "actualNormX_fp 1920 (sample 960 540 tenth tenth) = Fin 0"
    by (simp add: actualNormX_fp_def sample_def fdiv_Fin fmul_Fin fsub_Fin doubles)
  have m: "measuredNormX_fp 1920 (sample 960 540 tenth tenth) = Fin tenth"
    by (simp add: measuredNormX_fp_def sample_def tenth_double)
  have o: "fsub (mean_fp [Fin 0]) (mean_fp [Fin tenth]) = Fin (- tenth)"
    by (simp add: mean_fp_def fadd_Fin fdiv_Fin fsub_Fin tenth_double minus_tenth_double)
  note th = applyCalibration_fp_degenerate_axis
    [of "[sample 960 540 tenth tenth]" 1920 1080 "newTracker True", OF _ _ _ b]
  have z: "sumDmDm_fp (map (measuredNormX_fp 1920) [sample 960 540 tenth tenth]) = Fin 0"
    using th by simp
  show ?thesis
    using z th by (auto simp: a m o)
qed


text \<open>Three measurements of 0.1: their sum is rounded up to 0.30000000000000004 and their
  mean to 0.10000000000000002, one unit in the last place above each of them.\<close>

lemma stuck_mean: "mean_fp [Fin tenth, Fin tenth, Fin tenth] = Fin (tenth + 1 / 2 ^ 56)"
proof -
  have s1: "toDouble (0 + tenth) = Fin tenth"
    by (simp add: tenth_double)
  have s2: "toDouble (tenth + tenth) = Fin (2 * tenth)"
    unfolding tenth_def using toDouble_dyadic [of 3602879701896397 54] by simp
  have s3: "toDouble (2 * tenth + tenth) = Fin (5404319552844596 / 2 ^ 54)"
    unfolding tenth_def using toDouble_eval [of "- 2" "2 * (3602879701896397 / 2 ^ 55) + 3602879701896397 / 2 ^ 55"]
    by (simp add: roundEven_eval)
  have m: "toDouble (5404319552844596 / 2 ^ 54 / 3) = Fin (tenth + 1 / 2 ^ 56)"
    unfolding tenth_def using toDouble_eval [of "- 4" "5404319552844596 / 2 ^ 54 / 3"]
    by (simp add: roundEven_eval)
  have "foldl fadd (Fin 0) [Fin tenth, Fin tenth, Fin tenth] = Fin (5404319552844596 / 2 ^ 54)"
    by (simp only: foldl.simps fadd_Fin s1 s2 s3)
  then show ?thesis
    using m by (simp add: mean_fp_def fdiv_Fin)
qed

lemma stuck_normalized:
  "map (measuredNormX_fp 1920) stuckSamples = [Fin tenth, Fin tenth, Fin tenth]"
  "map (actualNormX_fp 1920) stuckSamples = [Fin (- 1), Fin 0, Fin 1]"
proof -
  have m1: "toDouble (- 1) = Fin (- 1)"
    using toDouble_dyadic [of "- 1" 0] by simp
  show "map (measuredNormX_fp 1920) stuckSamples = [Fin tenth, Fin tenth, Fin tenth]"
    by (simp add: stuckSamples_def sample_def measuredNormX_fp_def tenth_double)
  show "map (actualNormX_fp 1920) stuckSamples = [Fin (- 1), Fin 0, Fin 1]"
    by (simp add: stuckSamples_def sample_def actualNormX_fp_def fdiv_Fin fmul_Fin fsub_Fin doubles m1)
qed

lemma stuck_sums:
  "sumDmDm_fp [Fin tenth, Fin tenth, Fin tenth] = Fin (3 / 2 ^ 112)"
  "sumDmDa_fp [Fin tenth, Fin tenth, Fin tenth] [Fin (- 1), Fin 0, Fin 1] = Fin 0"
proof -
  have m1: "toDouble (- 1) = Fin (- 1)"
    using toDouble_dyadic [of "- 1" 0] by simp
  have ma: "mean_fp [Fin (- 1), Fin 0, Fin 1] = Fin 0"
    by (simp add: mean_fp_def fadd_Fin fdiv_Fin m1)
  have dm: "fsub (Fin tenth) (Fin (tenth + 1 / 2 ^ 56)) = Fin (- (1 / 2 ^ 56))"
    using toDouble_dyadic [of "- 1" 56] by (simp add: fsub_Fin)
  have sq: "fmul (Fin (- (1 / 2 ^ 56))) (Fin (- (1 / 2 ^ 56))) = Fin (1 / 2 ^ 112)"
    using toDouble_dyadic [of 1 112] by (simp add: fmul_Fin)
  have d1: "fadd (Fin 0) (Fin (1 / 2 ^ 112)) = Fin (1 / 2 ^ 112)"
    using toDouble_dyadic [of 1 112] by (simp add: fadd_Fin)
  have d2: "fadd (Fin (1 / 2 ^ 112)) (Fin (1 / 2 ^ 112)) = Fin (2 / 2 ^ 112)"
    using toDouble_dyadic [of 2 112] by (simp add: fadd_Fin)
  have d3: "fadd (Fin (2 / 2 ^ 112)) (Fin (1 / 2 ^ 112)) = Fin (3 / 2 ^ 112)"
    using toDouble_dyadic [of 3 112] by (simp add: fadd_Fin)
  show "sumDmDm_fp [Fin tenth, Fin tenth, Fin tenth] = Fin (3 / 2 ^ 112)"
    by (simp only: sumDmDm_fp_def stuck_mean list.map foldl.simps dm sq d1 d2 d3)
  have a1: "fsub (Fin (- 1)) (Fin 0) = Fin (- 1)" "fsub (Fin 0) (Fin 0) = Fin 0" "fsub (Fin 1) (Fin 0) = Fin 1"
    by (simp_all add: fsub_Fin m1)
  have p1: "fmul (Fin (- (1 / 2 ^ 56))) (Fin (- 1)) = Fin (1 / 2 ^ 56)"
    using toDouble_dyadic [of 1 56] by (simp add: fmul_Fin)
  have p2: "fmul (Fin (- (1 / 2 ^ 56))) (Fin 0) = Fin 0"
    by (simp add: fmul_Fin)
  have p3: "fmul (Fin (- (1 / 2 ^ 56))) (Fin 1) = Fin (- (1 / 2 ^ 56))"
    using toDouble_dyadic [of "- 1" 56] by (simp add: fmul_Fin)
  have n1: "fadd (Fin 0) (Fin (1 / 2 ^ 56)) = Fin (1 / 2 ^ 56)"
    using toDouble_dyadic [of 1 56] by (simp add: fadd_Fin)
  have n2: "fadd (Fin (1 / 2 ^ 56)) (Fin 0) = Fin (1 / 2 ^ 56)"
    using toDouble_dyadic [of 1 56] by (simp add: fadd_Fin)
  have n3: "fadd (Fin (1 / 2 ^ 56)) (Fin (- (1 / 2 ^ 56))) = Fin 0"
    by (simp add: fadd_Fin)
  show "sumDmDa_fp [Fin tenth, Fin tenth, Fin tenth] [Fin (- 1), Fin 0, Fin 1] = Fin 0"
    by (simp only: sumDmDa_fp_def stuck_mean ma zip.simps list.map list.case prod.case foldl.simps
        dm a1 p1 p2 p3 n1 n2 n3)
qed

text \<open>
  The claim as it is written takes the sum of squares of an axis to be zero when all
  measured values of the axis are equal, and the installed components to be finite for every
  non-empty array. Three samples that were all measured at 0.1: the rounded mean differs
  from 0.1, the sum of squares is \<open>3\<cdot>2\<^sup>-\<^sup>1\<^sup>1\<^sup>2\<close>, the division is taken and the scale is 0, not
  1. And on a viewport of width 0 the normalized target is infinite, and so is the offset.
\<close>

theorem applyCalibration_fp_equal_measurements_counterexample:
  "list_all (\<lambda>p. measuredNormX_fp 1920 p = Fin tenth) stuckSamples
   \<and> sumDmDm_fp (map (measuredNormX_fp 1920) stuckSamples) = Fin (3 / 2 ^ 112)
   \<and> scaleX (calibrationMatrix (applyCalibration_fp 1920 1080 (newTracker True) stuckSamples)) = Fin 0
   \<and> offsetX (calibrationMatrix (applyCalibration_fp 0 0 (newTracker True) [sample 960 540 tenth tenth])) = PInf"
proof -
  have e: "list_all (\<lambda>p. measuredNormX_fp 1920 p = Fin tenth) stuckSamples"
    by (simp add: stuckSamples_def sample_def measuredNormX_fp_def tenth_double)
  have ne: "stuckSamples \<noteq> []"
    by (simp add: stuckSamples_def)
  have s: "scaleX (calibrationMatrix (applyCalibration_fp 1920 1080 (newTracker True) stuckSamples)) = Fin 0"
    by (simp add: applyCalibration_fp_closed_form [OF ne] axisScale_fp_def stuck_normalized stuck_sums fdiv_Fin)
  have a0: "actualNormX_fp 0 (sample 960 540 tenth tenth) = PInf"
    by (simp add: actualNormX_fp_def sample_def fdiv_def fmul_def fsub_def jsub_def inf_times_def)
  have m0: "measuredNormX_fp 0 (sample 960 540 tenth tenth) = Fin tenth"
    by (simp add: measuredNormX_fp_def sample_def tenth_double)
  have z: "sumDmDm_fp [Fin tenth] = Fin 0"
    using tenth_double by (rule single_sample_zero)
  have o: "offsetX (calibrationMatrix (applyCalibration_fp 0 0 (newTracker True) [sample 960 540 tenth tenth])) = PInf"
    by (simp add: applyCalibration_fp_closed_form axis_guarded [OF z] a0 m0 z
        mean_fp_def fadd_def fdiv_def fsub_def jsub_def tenth_double)
  show ?thesis
    using e s o by (simp add: stuck_normalized stuck_sums)
qed

end
